theory Spec2Isabelle
  imports Main "HOL-Library.AList" "HOL-Library.Sublist"
begin

section \<open>JavaScript values of the rendered documents\<close>

text \<open>
  The fragments handled by \<^verbatim>\<open>cfn-init.ts\<close> are JSON-like JavaScript values.  An object
  is an association list of its own properties in insertion order.  An array is its
  elements and, as every array is an object too, its named properties: \<^verbatim>\<open>deepMerge\<close>
  creates them when it merges an object into an array.  An array literal has none.

  Every object inherits the members of \<^verbatim>\<open>Object.prototype\<close>, and a property read
  \<^verbatim>\<open>o[k]\<close> sees them: \<open>JInherited k\<close> is the member named \<open>k\<close> (a function; for
  \<^verbatim>\<open>__proto__\<close> the prototype itself), one shared object that is truthy and not an
  array.

  Limits of the embedding:
  \<^item> numbers are integers (no floating point, no NaN);
  \<^item> the members of the other prototypes (\<^verbatim>\<open>Array.prototype\<close>, \<^verbatim>\<open>Function.prototype\<close>,
    \<^verbatim>\<open>String.prototype\<close>, ...), and the indices and the \<^verbatim>\<open>length\<close> of an array or a
    string, are not modelled: a property name is taken not to be one of them;
  \<^item> a property name is not an integer index: an object lists such names first, in
    ascending order, while the association list keeps the insertion order;
  \<^item> what a merge writes into a member of \<^verbatim>\<open>Object.prototype\<close> is not followed, and
    neither is the change of prototype made by an assignment to \<^verbatim>\<open>__proto__\<close>;
  \<^item> values are trees: two compound values (arrays, objects) at different places are
    different references, and the in-place updates of \<^verbatim>\<open>deepMerge\<close> are seen only
    through its result.  The section on merging in place drops this limit;
  \<^item> the module is compiled in strict mode: an assignment to a property of a primitive
    throws.
\<close>

datatype jv =
    JUndef
  | JNull
  | JBool bool
  | JNum int
  | JStr string
  | JArr "jv list" "(string \<times> jv) list"
  | JObj "(string \<times> jv) list"
  | JInherited string

text \<open>\<^verbatim>\<open>x == null\<close>: true for \<^verbatim>\<open>null\<close> and \<^verbatim>\<open>undefined\<close>.\<close>

fun nullish :: "jv \<Rightarrow> bool" where
  "nullish JUndef = True"
| "nullish JNull = True"
| "nullish _ = False"

text \<open>JavaScript truthiness, as tested by \<^verbatim>\<open>target[key] && ...\<close>.\<close>

fun truthy :: "jv \<Rightarrow> bool" where
  "truthy JUndef = False"
| "truthy JNull = False"
| "truthy (JBool b) = b"
| "truthy (JNum n) = (n \<noteq> 0)"
| "truthy (JStr s) = (s \<noteq> [])"
| "truthy (JArr _ _) = True"
| "truthy (JObj _) = True"
| "truthy (JInherited _) = True"

text \<open>\<^verbatim>\<open>Array.isArray\<close>.\<close>

fun isArray :: "jv \<Rightarrow> bool" where
  "isArray (JArr _ _) = True"
| "isArray _ = False"

text \<open>\<^verbatim>\<open>a ?? b\<close>.\<close>

definition coalesce :: "jv \<Rightarrow> jv \<Rightarrow> jv" where
  "coalesce a b = (if nullish a then b else a)"

text \<open>
  The names of the members of \<^verbatim>\<open>Object.prototype\<close>, and the read of a name that is not
  an own property: the inherited member, or \<^verbatim>\<open>undefined\<close>.
\<close>

definition objectPrototype :: "string list" where
  "objectPrototype =
     [''constructor'', ''__defineGetter__'', ''__defineSetter__'', ''hasOwnProperty'',
      ''__lookupGetter__'', ''__lookupSetter__'', ''isPrototypeOf'', ''propertyIsEnumerable'',
      ''toString'', ''valueOf'', ''__proto__'', ''toLocaleString'']"

definition fromPrototype :: "string \<Rightarrow> jv" where
  "fromPrototype k = (if k \<in> set objectPrototype then JInherited k else JUndef)"

text \<open>
  The property read \<^verbatim>\<open>o[k]\<close>: the own property of that name (whatever its value), else
  what the prototype has.
\<close>

fun jget :: "jv \<Rightarrow> string \<Rightarrow> jv" where
  "jget (JObj kvs) k = (case map_of kvs k of None \<Rightarrow> fromPrototype k | Some v \<Rightarrow> v)"
| "jget (JArr xs props) k = (case map_of props k of None \<Rightarrow> fromPrototype k | Some v \<Rightarrow> v)"
| "jget JUndef k = JUndef"
| "jget JNull k = JUndef"
| "jget _ k = fromPrototype k"

text \<open>
  The own property of that name, \<^verbatim>\<open>undefined\<close> when there is none: what
  \<^verbatim>\<open>Object.entries\<close> and a serialization of the value see.
\<close>

fun ownProperty :: "jv \<Rightarrow> string \<Rightarrow> jv" where
  "ownProperty (JObj kvs) k = (case map_of kvs k of None \<Rightarrow> JUndef | Some v \<Rightarrow> v)"
| "ownProperty (JArr xs props) k = (case map_of props k of None \<Rightarrow> JUndef | Some v \<Rightarrow> v)"
| "ownProperty _ k = JUndef"

text \<open>
  \<^verbatim>\<open>Object.entries\<close> of the source of a merge.  The declared type of the parameter is
  \<^verbatim>\<open>Record<string, any>\<close>, and the recursive call passes an object; numbers, booleans
  and the members of the prototype have no entries.  A string or an array (which the
  type excludes, and whose entries would have index keys) is given none.
\<close>

fun entries :: "jv \<Rightarrow> (string \<times> jv) list" where
  "entries (JObj kvs) = kvs"
| "entries _ = []"

text \<open>
  Values compared by \<^verbatim>\<open>Set\<close> (SameValueZero): primitives by value, arrays and objects by
  reference; a member of the prototype is one object, the same wherever it is read.
  \<open>setAdd\<close> is \<^verbatim>\<open>Set.prototype.add\<close> on the list of members in insertion order, and
  \<open>arrayFromSet xs\<close> is \<^verbatim>\<open>Array.from(new Set(xs))\<close>.
\<close>

fun isPrimitive :: "jv \<Rightarrow> bool" where
  "isPrimitive (JArr _ _) = False"
| "isPrimitive (JObj _) = False"
| "isPrimitive (JInherited _) = False"
| "isPrimitive _ = True"

fun isInherited :: "jv \<Rightarrow> bool" where
  "isInherited (JInherited _) = True"
| "isInherited _ = False"

definition setAdd :: "jv list \<Rightarrow> jv \<Rightarrow> jv list" where
  "setAdd members x =
     (if (isPrimitive x \<or> isInherited x) \<and> x \<in> set members then members else members @ [x])"

definition arrayFromSet :: "jv list \<Rightarrow> jv list" where
  "arrayFromSet xs = foldl setAdd [] xs"

section \<open>The merge engine: deepMerge\<close>

datatype merge_error =
    MergeError jv jv
    \<comment> \<open>\<^verbatim>\<open>Trying to merge array [value] into a non-array 'target[key]'\<close>\<close>
  | TypeError
    \<comment> \<open>a TypeError of the runtime: spreading a value that is not iterable, or (strict
        mode) creating a property on a primitive\<close>

text \<open>
  The assignment \<^verbatim>\<open>o[k] = v\<close> on the own properties of an object: replace in place, or
  append a new key last.  \<^verbatim>\<open>__proto__\<close> is an accessor of the prototype: unless the
  object has an own property of that name, the assignment creates none.
\<close>

definition assign :: "string \<Rightarrow> 'v \<Rightarrow> (string \<times> 'v) list \<Rightarrow> (string \<times> 'v) list" where
  "assign k v obj =
     (if k = ''__proto__'' \<and> map_of obj k = None then obj else AList.update k v obj)"

text \<open>
  The assignment \<^verbatim>\<open>target[key] = v\<close>: on an array it creates a named property, on a
  member of the prototype it lands in that shared object, on a primitive it throws.
\<close>

fun jset :: "jv \<Rightarrow> string \<Rightarrow> jv \<Rightarrow> merge_error + jv" where
  "jset (JObj kvs) k v = Inr (JObj (assign k v kvs))"
| "jset (JArr xs props) k v = Inr (JArr xs (assign k v props))"
| "jset (JInherited n) k v = Inr (JInherited n)"
| "jset _ k v = Inl TypeError"

text \<open>
  The spread \<^verbatim>\<open>...(target[key] ?? [])\<close> of a value that passed the guard (falsy, or an
  array): \<^verbatim>\<open>undefined\<close>, \<^verbatim>\<open>null\<close> and the empty string contribute nothing, \<^verbatim>\<open>0\<close> and
  \<^verbatim>\<open>false\<close> are not iterable.
\<close>

fun spread :: "jv \<Rightarrow> merge_error + jv list" where
  "spread (JArr xs props) = Inr xs"
| "spread JUndef = Inr []"
| "spread JNull = Inr []"
| "spread (JStr s) = Inr (map (\<lambda>c. JStr [c]) s)"
| "spread _ = Inl TypeError"

text \<open>
  \<open>mergeEntries target kvs\<close> is the loop
  \<^verbatim>\<open>for (const [key, value] of Object.entries(src)) { ... }\<close> of \<^verbatim>\<open>deepMerge\<close> with the
  remaining entries \<open>kvs\<close>, followed by \<^verbatim>\<open>return target\<close>.  The recursive call
  \<^verbatim>\<open>deepMerge(target[key] ?? {}, value)\<close> has two arguments that are not nullish, so it
  is this loop again (lemma \<open>deepMerge_nested\<close>).  A value that is a member of the
  prototype is a function, which is stored as it is; the prototype itself is an object
  without entries.
\<close>

function mergeEntries :: "jv \<Rightarrow> (string \<times> jv) list \<Rightarrow> merge_error + jv" where
  "mergeEntries target [] = Inr target"
| "mergeEntries target ((key, JArr vs props) # rest) =
     (if truthy (jget target key) \<and> \<not> isArray (jget target key)
      then Inl (MergeError (JArr vs props) (jget target key))
      else case spread (coalesce (jget target key) (JArr [] [])) of
             Inl e \<Rightarrow> Inl e
           | Inr old \<Rightarrow>
               (case jset target key (JArr (arrayFromSet (old @ vs)) []) of
                  Inl e \<Rightarrow> Inl e
                | Inr target' \<Rightarrow> mergeEntries target' rest))"
| "mergeEntries target ((key, JObj kvs) # rest) =
     (case mergeEntries (coalesce (jget target key) (JObj [])) kvs of
        Inl e \<Rightarrow> Inl e
      | Inr merged \<Rightarrow>
          (case jset target key merged of
             Inl e \<Rightarrow> Inl e
           | Inr target' \<Rightarrow> mergeEntries target' rest))"
| "mergeEntries target ((key, JInherited n) # rest) =
     (case jset target key
             (if n = ''__proto__'' then coalesce (jget target key) (JObj []) else JInherited n) of
        Inl e \<Rightarrow> Inl e
      | Inr target' \<Rightarrow> mergeEntries target' rest)"
| "mergeEntries target ((key, JUndef) # rest) = mergeEntries target rest"
| "mergeEntries target ((key, JNull) # rest) =
     (case jset target key JNull of Inl e \<Rightarrow> Inl e | Inr target' \<Rightarrow> mergeEntries target' rest)"
| "mergeEntries target ((key, JBool b) # rest) =
     (case jset target key (JBool b) of Inl e \<Rightarrow> Inl e | Inr target' \<Rightarrow> mergeEntries target' rest)"
| "mergeEntries target ((key, JNum n) # rest) =
     (case jset target key (JNum n) of Inl e \<Rightarrow> Inl e | Inr target' \<Rightarrow> mergeEntries target' rest)"
| "mergeEntries target ((key, JStr s) # rest) =
     (case jset target key (JStr s) of Inl e \<Rightarrow> Inl e | Inr target' \<Rightarrow> mergeEntries target' rest)"
  by pat_completeness auto
termination
  by (relation "measure (\<lambda>(target, kvs). size (JObj kvs))") auto

definition deepMerge :: "jv \<Rightarrow> jv \<Rightarrow> merge_error + jv" where
  "deepMerge target src =
     (if nullish target then Inr src
      else if nullish src then Inr target
      else mergeEntries target (entries src))"

text \<open>\<^verbatim>\<open>fragments.reduce(deepMerge, undefined)\<close> is \<open>reduceMerge JUndef fragments\<close>.\<close>

fun reduceMerge :: "jv \<Rightarrow> jv list \<Rightarrow> merge_error + jv" where
  "reduceMerge acc [] = Inr acc"
| "reduceMerge acc (x # xs) =
     (case deepMerge acc x of Inl e \<Rightarrow> Inl e | Inr acc' \<Rightarrow> reduceMerge acc' xs)"

section \<open>Elements and InitConfig\<close>

text \<open>
  Modelled from the spec: the enumeration \<^verbatim>\<open>InitElementType\<close> of
  \<^verbatim>\<open>private/cfn-init-internal\<close>, which is not among the sources.  The spec names its seven
  kinds, and \<^verbatim>\<open>InitConfig._bind\<close> uses each of them.
\<close>

datatype InitElementType = PACKAGE | GROUP | USER | SOURCE | FILE | COMMAND | SERVICE

text \<open>
  Modelled from the spec: the enumeration \<^verbatim>\<open>InitPlatform\<close> of \<^verbatim>\<open>private/cfn-init-internal\<close>,
  with the two families of the spec; \<^verbatim>\<open>_attach\<close> tests for \<^verbatim>\<open>WINDOWS\<close>.
\<close>

datatype InitPlatform = WINDOWS | LINUX

text \<open>
  Modelled from the spec: the interfaces \<^verbatim>\<open>InitBindOptions\<close> and \<^verbatim>\<open>InitElementConfig\<close> of
  \<^verbatim>\<open>private/cfn-init-internal\<close>, with the fields the source reads and writes.  The role
  and the scope handed to an element are opaque (\<open>'r\<close>, \<open>'s\<close>).  \<open>RenderOptions\<close> is
  \<^verbatim>\<open>Omit<InitBindOptions, 'index'>\<close>; the role and the platform are also fields of the
  options of an attachment.
\<close>

record 'r RoleAndPlatform =
  instanceRole :: 'r
  platform :: InitPlatform

record ('r, 's) RenderOptions = "'r RoleAndPlatform" +
  scope :: 's

record ('r, 's) InitBindOptions = "('r, 's) RenderOptions" +
  index :: nat

record InitElementConfig =
  config :: jv
  authentication :: jv

text \<open>
  Modelled from the spec: the class \<^verbatim>\<open>InitElement\<close> of \<^verbatim>\<open>cfn-init-elements\<close>, of which the
  source uses the kind and \<^verbatim>\<open>_bind\<close>: given the bind options, an element returns a
  config fragment and an authentication fragment, each possibly \<^verbatim>\<open>undefined\<close>.
\<close>

record ('r, 's) InitElement =
  elementType :: InitElementType
  elementBind :: "('r, 's) InitBindOptions \<Rightarrow> InitElementConfig"

type_synonym ('r, 's) InitConfig = "('r, 's) InitElement list"

definition isEmpty :: "('r, 's) InitConfig \<Rightarrow> bool" where
  "isEmpty elements = (length elements = 0)"

definition add :: "('r, 's) InitElement list \<Rightarrow> ('r, 's) InitConfig \<Rightarrow> ('r, 's) InitConfig" where
  "add new elements = elements @ new"

definition InitConfig_new :: "('r, 's) InitElement list \<Rightarrow> ('r, 's) InitConfig" where
  "InitConfig_new elements = add elements []"

text \<open>
  A computation that calls \<^verbatim>\<open>_bind\<close> of elements and may throw returns the calls it made,
  in order (the element and the options it was given), and its result or the error.
  \<open>bindElement\<close> is the call \<^verbatim>\<open>e._bind(options)\<close>: the call made, and what it returns.
  \<open>andThen\<close> is the sequencing of two statements: an exception skips the second.
\<close>

type_synonym ('r, 's) bindCall = "('r, 's) InitElement \<times> ('r, 's) InitBindOptions"

type_synonym ('r, 's, 'a) bound = "('r, 's) bindCall list \<times> (merge_error + 'a)"

definition bindElement ::
  "('r, 's) InitElement \<Rightarrow> ('r, 's) InitBindOptions \<Rightarrow> ('r, 's) bindCall \<times> InitElementConfig" where
  "bindElement e options = ((e, options), elementBind e options)"

definition andThen :: "('r, 's, 'a) bound \<Rightarrow> ('a \<Rightarrow> ('r, 's, 'b) bound) \<Rightarrow> ('r, 's, 'b) bound" where
  "andThen m f =
     (case m of
        (calls, Inl e) \<Rightarrow> (calls, Inl e)
      | (calls, Inr a) \<Rightarrow> (case f a of (calls', r) \<Rightarrow> (calls @ calls', r)))"

definition withIndex :: "nat \<Rightarrow> ('r, 's) RenderOptions \<Rightarrow> ('r, 's) InitBindOptions" where
  "withIndex i renderOptions =
     \<lparr>instanceRole = instanceRole renderOptions, platform = platform renderOptions,
      scope = scope renderOptions, index = i\<rparr>"

text \<open>
  \<^verbatim>\<open>InitConfig.bindForType\<close>; \<^verbatim>\<open>elements.map((e, index) => e._bind({ index, ...renderOptions }))\<close>
  binds the elements of the kind in their order, each with its position.
\<close>

definition bindForType ::
  "InitElementType \<Rightarrow> ('r, 's) RenderOptions \<Rightarrow> ('r, 's) InitConfig \<Rightarrow>
     ('r, 's, InitElementConfig option) bound" where
  "bindForType ty renderOptions elements =
     (let elems = filter (\<lambda>elem. elementType elem = ty) elements in
      if length elems = 0 then ([], Inr None)
      else
        let bound = map (\<lambda>(e, i). bindElement e (withIndex i renderOptions))
                        (zip elems [0..<length elems]);
            bindResults = map snd bound
        in (map fst bound,
            case reduceMerge JUndef (map config bindResults) of
              Inl e \<Rightarrow> Inl e
            | Inr c \<Rightarrow>
                (case reduceMerge JUndef (map authentication bindResults) of
                   Inl e \<Rightarrow> Inl e
                 | Inr a \<Rightarrow> Inr (Some \<lparr>config = coalesce c (JObj []), authentication = a\<rparr>))))"

text \<open>\<^verbatim>\<open>c?.config\<close> and \<^verbatim>\<open>c?.authentication\<close>.\<close>

definition optConfig :: "InitElementConfig option \<Rightarrow> jv" where
  "optConfig c = (case c of None \<Rightarrow> JUndef | Some r \<Rightarrow> config r)"

definition optAuthentication :: "InitElementConfig option \<Rightarrow> jv" where
  "optAuthentication c = (case c of None \<Rightarrow> JUndef | Some r \<Rightarrow> authentication r)"

text \<open>\<^verbatim>\<open>InitConfig._bind\<close>.\<close>

definition InitConfig_bind ::
  "('r, 's) RenderOptions \<Rightarrow> ('r, 's) InitConfig \<Rightarrow> ('r, 's, InitElementConfig) bound" where
  "InitConfig_bind bindOptions elements =
     andThen (bindForType PACKAGE bindOptions elements) (\<lambda>packageConfig.
     andThen (bindForType GROUP bindOptions elements) (\<lambda>groupsConfig.
     andThen (bindForType USER bindOptions elements) (\<lambda>usersConfig.
     andThen (bindForType SOURCE bindOptions elements) (\<lambda>sourcesConfig.
     andThen (bindForType FILE bindOptions elements) (\<lambda>filesConfig.
     andThen (bindForType COMMAND bindOptions elements) (\<lambda>commandsConfig.
     andThen (bindForType SERVICE bindOptions elements) (\<lambda>servicesConfig.
       ([],
        case reduceMerge JUndef
               (map optAuthentication
                  [packageConfig, groupsConfig, usersConfig, sourcesConfig, filesConfig,
                   commandsConfig, servicesConfig]) of
          Inl e \<Rightarrow> Inl e
        | Inr a \<Rightarrow>
            Inr \<lparr>config = JObj
                   [(''packages'', optConfig packageConfig),
                    (''groups'', optConfig groupsConfig),
                    (''users'', optConfig usersConfig),
                    (''sources'', optConfig sourcesConfig),
                    (''files'', optConfig filesConfig),
                    (''commands'', optConfig commandsConfig),
                    (''services'', optConfig servicesConfig)],
                 authentication = a\<rparr>))))))))"

section \<open>The registry: CloudFormationInit\<close>

text \<open>
  A \<^verbatim>\<open>Record<string, T>\<close> is an association list of its own properties in insertion
  order.  The records of the registry are plain objects (\<^verbatim>\<open>{}\<close>) whose own values are
  config objects and arrays, all truthy; a read \<^verbatim>\<open>r[k]\<close> also sees the members of
  \<^verbatim>\<open>Object.prototype\<close>, which are truthy too.  \<open>found r k\<close> is the test \<^verbatim>\<open>if (r[k])\<close>, and
  \<^verbatim>\<open>r[k] !== undefined\<close>, on such a record.
\<close>

definition found :: "(string \<times> 'a) list \<Rightarrow> string \<Rightarrow> bool" where
  "found r k = (map_of r k \<noteq> None \<or> k \<in> set objectPrototype)"

record ('r, 's) CloudFormationInit =
  configSets :: "(string \<times> string list) list"
  configs :: "(string \<times> ('r, 's) InitConfig) list"

datatype config_error =
    DuplicateConfig string
  | DuplicateConfigSet string
  | UnknownConfigs string "string list"

text \<open>\<^verbatim>\<open>xs.join(sep)\<close>; an array of strings in a template literal is \<open>join '',''\<close>.\<close>

fun join :: "string \<Rightarrow> string list \<Rightarrow> string" where
  "join sep [] = []"
| "join sep [x] = x"
| "join sep (x # y # ys) = x @ sep @ join sep (y # ys)"

definition quoted :: "string \<Rightarrow> string" where
  "quoted s = [CHR 0x27] @ s @ [CHR 0x27]"

fun message :: "config_error \<Rightarrow> string" where
  "message (DuplicateConfig configName) =
     ''CloudFormationInit already contains a config named '' @ quoted configName"
| "message (DuplicateConfigSet configSetName) =
     ''CloudFormationInit already contains a configSet named '' @ quoted configSetName"
| "message (UnknownConfigs configSetName unk) =
     ''Unknown configs referenced in definition of '' @ quoted configSetName @ '': '' @
     join '','' unk"

text \<open>
  The mutators return the registry after the call and the exception thrown, if any.
\<close>

definition addConfig ::
  "string \<Rightarrow> ('r, 's) InitConfig \<Rightarrow> ('r, 's) CloudFormationInit \<Rightarrow>
     ('r, 's) CloudFormationInit \<times> config_error option" where
  "addConfig configName cfg this =
     (if found (configs this) configName
      then (this, Some (DuplicateConfig configName))
      else (this\<lparr>configs := assign configName cfg (configs this)\<rparr>, None))"

text \<open>\<^verbatim>\<open>configNames\<close> is optional and defaults to the empty array.\<close>

definition addConfigSet ::
  "string \<Rightarrow> string list option \<Rightarrow> ('r, 's) CloudFormationInit \<Rightarrow>
     ('r, 's) CloudFormationInit \<times> config_error option" where
  "addConfigSet configSetName configNamesArg this =
     (let configNames = (case configNamesArg of None \<Rightarrow> [] | Some ns \<Rightarrow> ns) in
      if found (configSets this) configSetName
      then (this, Some (DuplicateConfigSet configSetName))
      else
        let unk = filter (\<lambda>c. \<not> found (configs this) c) configNames in
        if length unk > 0
        then (this, Some (UnknownConfigs configSetName unk))
        else (this\<lparr>configSets := assign configSetName configNames (configSets this)\<rparr>,
              None))"

text \<open>
  \<^verbatim>\<open>mapValues\<close>: the callback returns \<open>None\<close> for \<^verbatim>\<open>undefined\<close>, and the key is left out.
  \<open>mapValuesLoop\<close> is the loop over the remaining entries, with \<^verbatim>\<open>ret\<close> so far.
\<close>

fun mapValuesLoop ::
  "(string \<times> 'b) list \<Rightarrow> (string \<times> 'a) list \<Rightarrow> ('a \<Rightarrow> 'b option) \<Rightarrow> (string \<times> 'b) list" where
  "mapValuesLoop ret [] fn = ret"
| "mapValuesLoop ret ((k, v) # xs) fn =
     (case fn v of
        None \<Rightarrow> mapValuesLoop ret xs fn
      | Some mapped \<Rightarrow> mapValuesLoop (assign k mapped ret) xs fn)"

definition mapValues :: "(string \<times> 'a) list \<Rightarrow> ('a \<Rightarrow> 'b option) \<Rightarrow> (string \<times> 'b) list" where
  "mapValues xs fn = mapValuesLoop [] xs fn"

text \<open>\<^verbatim>\<open>mapValues\<close> with a callback that may throw (\<^verbatim>\<open>c => c._bind(scope, options)\<close>).\<close>

fun mapValuesThrowingLoop ::
  "(string \<times> 'b) list \<Rightarrow> (string \<times> 'a) list \<Rightarrow> ('a \<Rightarrow> 'e + 'b option) \<Rightarrow>
     'e + (string \<times> 'b) list" where
  "mapValuesThrowingLoop ret [] fn = Inr ret"
| "mapValuesThrowingLoop ret ((k, v) # xs) fn =
     (case fn v of
        Inl e \<Rightarrow> Inl e
      | Inr None \<Rightarrow> mapValuesThrowingLoop ret xs fn
      | Inr (Some mapped) \<Rightarrow> mapValuesThrowingLoop (assign k mapped ret) xs fn)"

definition mapValuesThrowing ::
  "(string \<times> 'a) list \<Rightarrow> ('a \<Rightarrow> 'e + 'b option) \<Rightarrow> 'e + (string \<times> 'b) list" where
  "mapValuesThrowing xs fn = mapValuesThrowingLoop [] xs fn"

text \<open>
  The object spread \<^verbatim>\<open>{ ...base, ...props }\<close> defines the properties of \<open>props\<close> on a
  copy of \<open>base\<close>; \<^verbatim>\<open>Object.assign(base, props)\<close> assigns them.  Later properties overwrite.
\<close>

definition objectSpread :: "(string \<times> 'v) list \<Rightarrow> (string \<times> 'v) list \<Rightarrow> (string \<times> 'v) list" where
  "objectSpread base props = foldl (\<lambda>obj (k, v). AList.update k v obj) base props"

definition objectAssign :: "(string \<times> 'v) list \<Rightarrow> (string \<times> 'v) list \<Rightarrow> (string \<times> 'v) list" where
  "objectAssign base props = foldl (\<lambda>obj (k, v). assign k v obj) base props"

text \<open>
  The private constructor copies the two records of the props into fresh ones;
  \<^verbatim>\<open>fromConfigSets\<close>, \<^verbatim>\<open>fromConfig\<close> and \<^verbatim>\<open>fromElements\<close> are the public ways to a registry.
\<close>

definition fromConfigSets ::
  "(string \<times> string list) list \<Rightarrow> (string \<times> ('r, 's) InitConfig) list \<Rightarrow>
     ('r, 's) CloudFormationInit" where
  "fromConfigSets configSetsProp configsProp =
     \<lparr>configSets = objectAssign [] configSetsProp, configs = objectAssign [] configsProp\<rparr>"

definition fromConfig :: "('r, 's) InitConfig \<Rightarrow> ('r, 's) CloudFormationInit" where
  "fromConfig cfg = fromConfigSets [(''default'', [''config''])] [(''config'', cfg)]"

definition fromElements :: "('r, 's) InitElement list \<Rightarrow> ('r, 's) CloudFormationInit" where
  "fromElements elements = fromConfig (InitConfig_new elements)"

text \<open>A \<^verbatim>\<open>Record<string, string[]>\<close> as a value.\<close>

definition namesObject :: "(string \<times> string list) list \<Rightarrow> jv" where
  "namesObject sets = JObj (map (\<lambda>(k, names). (k, JArr (map JStr names) [])) sets)"

text \<open>\<^verbatim>\<open>x === undefined ? remove : keep\<close>, for a callback that returns a value.\<close>

definition defined :: "jv \<Rightarrow> jv option" where
  "defined v = (if v = JUndef then None else Some v)"

record bind_result =
  configData :: jv
  authData :: jv

text \<open>
  The steps of \<^verbatim>\<open>CloudFormationInit.bind\<close>, named as in the source.  The options of the
  attachment reach the elements as \<open>bindOptions\<close>.
\<close>

definition nonEmptyConfigs ::
  "('r, 's) CloudFormationInit \<Rightarrow> (string \<times> ('r, 's) InitConfig) list" where
  "nonEmptyConfigs this = mapValues (configs this) (\<lambda>c. if isEmpty c then None else Some c)"

definition configNameToBindResult ::
  "('r, 's) RenderOptions \<Rightarrow> ('r, 's) CloudFormationInit \<Rightarrow>
     merge_error + (string \<times> InitElementConfig) list" where
  "configNameToBindResult bindOptions this =
     mapValuesThrowing (nonEmptyConfigs this)
       (\<lambda>c. case snd (InitConfig_bind bindOptions c) of Inl e \<Rightarrow> Inl e | Inr r \<Rightarrow> Inr (Some r))"

definition renderedConfigSets :: "('r, 's) CloudFormationInit \<Rightarrow> (string \<times> string list) list" where
  "renderedConfigSets this =
     mapValues (configSets this)
       (\<lambda>configNames. Some (filter (\<lambda>name. found (nonEmptyConfigs this) name) configNames))"

definition renderedConfigs :: "(string \<times> InitElementConfig) list \<Rightarrow> (string \<times> jv) list" where
  "renderedConfigs bound = mapValues bound (\<lambda>c. defined (config c))"

definition CloudFormationInit_bind ::
  "('r, 's) RenderOptions \<Rightarrow> ('r, 's) CloudFormationInit \<Rightarrow> merge_error + bind_result" where
  "CloudFormationInit_bind bindOptions this =
     (case configNameToBindResult bindOptions this of
        Inl e \<Rightarrow> Inl e
      | Inr bound \<Rightarrow>
          (case reduceMerge JUndef (map (\<lambda>(name, c). authentication c) bound) of
             Inl e \<Rightarrow> Inl e
           | Inr auth \<Rightarrow>
               Inr \<lparr>configData =
                      JObj (objectSpread
                              [(''configSets'', namesObject (renderedConfigSets this))]
                              (renderedConfigs bound)),
                    authData = auth\<rparr>))"

section \<open>Attachment and fingerprint\<close>

text \<open>
  The hash (\<^verbatim>\<open>crypto.createHash('sha256')...digest('hex')\<close>), \<^verbatim>\<open>JSON.stringify\<close> and the
  tokens \<^verbatim>\<open>Aws.REGION\<close> and \<^verbatim>\<open>Aws.STACK_NAME\<close> belong to the platform: they are parameters.
\<close>

record platform_env =
  sha256_hexdigest :: "string \<Rightarrow> string"
  JSON_stringify :: "jv \<Rightarrow> string"
  Aws_REGION :: string
  Aws_STACK_NAME :: string

definition contentHash :: "platform_env \<Rightarrow> string \<Rightarrow> string" where
  "contentHash env content = sha256_hexdigest env content"

text \<open>\<^verbatim>\<open>s.substr(0, n)\<close>.\<close>

definition substr0 :: "nat \<Rightarrow> string \<Rightarrow> string" where
  "substr0 n s = take n s"

record 's CfnResource =
  stack :: 's
  logicalId :: string

text \<open>
  Modelled from the spec: the interface \<^verbatim>\<open>AttachInitOptions\<close> of
  \<^verbatim>\<open>private/cfn-init-internal\<close>, with the fields \<^verbatim>\<open>_attach\<close> reads.  The optional fields are
  options; \<open>configSetsOption\<close> is the field \<^verbatim>\<open>configSets\<close>.  The user data is written to,
  so it is part of the effects.
\<close>

record 'r AttachInitOptions = "'r RoleAndPlatform" +
  configSetsOption :: "string list option"
  embedFingerprint :: "bool option"
  printLog :: "bool option"
  ignoreFailures :: "bool option"

record attach_effects =
  metadata :: "(string \<times> jv) list"
  commands :: "string list"
  fingerprint :: string

definition resourceLocator :: "platform_env \<Rightarrow> 's CfnResource \<Rightarrow> string" where
  "resourceLocator env attachedResource =
     ''--region '' @ Aws_REGION env @ '' --stack '' @ Aws_STACK_NAME env @ '' --resource '' @
     logicalId attachedResource"

definition orDefault :: "'a option \<Rightarrow> 'a \<Rightarrow> 'a" where
  "orDefault x d = (case x of None \<Rightarrow> d | Some v \<Rightarrow> v)"

definition initCommands :: "platform_env \<Rightarrow> 's CfnResource \<Rightarrow> 'r AttachInitOptions \<Rightarrow> string list" where
  "initCommands env attachedResource attachOptions =
     (let locator = resourceLocator env attachedResource;
          sets = join '','' (orDefault (configSetsOption attachOptions) [''default'']);
          log = orDefault (printLog attachOptions) True;
          ignore = orDefault (ignoreFailures attachOptions) False
      in if platform attachOptions = WINDOWS
         then [''cfn-init.exe -v '' @ locator @ '' -c '' @ sets,
               ''cfn-signal.exe -e '' @ (if ignore then ''0'' else ''$LASTEXITCODE'') @ '' '' @ locator]
              @ (if log then [''type C:'' @ [CHR 0x5C] @ ''cfn'' @ [CHR 0x5C] @ ''log'' @ [CHR 0x5C] @ ''cfn-init.log'']
                 else [])
         else [''('',
               ''  set +e'',
               ''  /opt/aws/bin/cfn-init -v '' @ locator @ '' -c '' @ sets,
               ''  /opt/aws/bin/cfn-signal -e '' @ (if ignore then ''0'' else ''$?'') @ '' '' @ locator]
              @ (if log then [''  cat /var/log/cfn-init.log >&2''] else [])
              @ ['')''])"

text \<open>
  \<^verbatim>\<open>CloudFormationInit._attach\<close>: the metadata added to the resource, the commands added
  to the user data and the fingerprint; the policy statement given to the role is left
  to the role.  An exception of \<^verbatim>\<open>bind\<close> leaves no effect.
\<close>

definition CloudFormationInit_attach ::
  "platform_env \<Rightarrow> 's CfnResource \<Rightarrow> 'r AttachInitOptions \<Rightarrow> ('r, 's) CloudFormationInit \<Rightarrow>
     merge_error + attach_effects" where
  "CloudFormationInit_attach env attachedResource attachOptions this =
     (case CloudFormationInit_bind
             \<lparr>instanceRole = instanceRole attachOptions, platform = platform attachOptions,
              scope = stack attachedResource\<rparr> this of
        Inl e \<Rightarrow> Inl e
      | Inr bindResult \<Rightarrow>
          (let fp = substr0 16 (contentHash env (JSON_stringify env (configData bindResult)))
           in Inr \<lparr>metadata =
                     [(''AWS::CloudFormation::Init'', configData bindResult)] @
                     (if truthy (authData bindResult)
                      then [(''AWS::CloudFormation::Authentication'', authData bindResult)]
                      else []),
                   commands =
                     (if orDefault (embedFingerprint attachOptions) True
                      then [''# fingerprint: '' @ fp] else []) @
                     initCommands env attachedResource attachOptions,
                   fingerprint = fp\<rparr>))"

section \<open>Merging in place\<close>

text \<open>
  \<^verbatim>\<open>deepMerge\<close> writes into its target and returns it, and
  \<^verbatim>\<open>fragments.reduce(deepMerge, undefined)\<close> makes the first fragment the accumulator: the
  merge of a kind writes into the object that the first element of the kind returned.
  To follow this, objects and arrays live in a store, at addresses; a value is a
  primitive, a member of the prototype or a reference, and two references are the same
  value when they are the same address (so \<^verbatim>\<open>Set\<close> membership is equality).  The
  definitions below are those of the sections above on such a store, which every
  computation takes and returns.  An element is a function of the store too: it may
  return a reference it keeps, or build a new fragment.

  The nesting of objects in a store need not be well-founded, so the recursion of
  \<^verbatim>\<open>deepMerge\<close> and the serialization take fuel: the result \<open>None\<close> says that \<open>n\<close> levels
  were not enough.
\<close>

datatype sv =
    SUndef
  | SNull
  | SBool bool
  | SNum int
  | SStr string
  | SRef nat
  | SInherited string

datatype cell =
    ObjectCell "(string \<times> sv) list"
  | ArrayCell "sv list" "(string \<times> sv) list"

type_synonym store = "cell list"

datatype store_error =
    MergeErrorInPlace sv sv
  | TypeErrorInPlace

text \<open>A new object or array: its address is the next one.\<close>

definition alloc :: "cell \<Rightarrow> store \<Rightarrow> store \<times> sv" where
  "alloc c st = (st @ [c], SRef (length st))"

definition cellOf :: "store \<Rightarrow> sv \<Rightarrow> cell option" where
  "cellOf st v = (case v of SRef a \<Rightarrow> if a < length st then Some (st ! a) else None | _ \<Rightarrow> None)"

fun nullishS :: "sv \<Rightarrow> bool" where
  "nullishS SUndef = True"
| "nullishS SNull = True"
| "nullishS _ = False"

fun truthyS :: "sv \<Rightarrow> bool" where
  "truthyS SUndef = False"
| "truthyS SNull = False"
| "truthyS (SBool b) = b"
| "truthyS (SNum n) = (n \<noteq> 0)"
| "truthyS (SStr s) = (s \<noteq> [])"
| "truthyS (SRef a) = True"
| "truthyS (SInherited k) = True"

definition isArrayS :: "store \<Rightarrow> sv \<Rightarrow> bool" where
  "isArrayS st v = (case cellOf st v of Some (ArrayCell xs props) \<Rightarrow> True | _ \<Rightarrow> False)"

definition isObjectS :: "store \<Rightarrow> sv \<Rightarrow> bool" where
  "isObjectS st v = (case cellOf st v of Some (ObjectCell kvs) \<Rightarrow> True | _ \<Rightarrow> v = SInherited ''__proto__'')"

definition fromPrototypeS :: "string \<Rightarrow> sv" where
  "fromPrototypeS k = (if k \<in> set objectPrototype then SInherited k else SUndef)"

text \<open>\<^verbatim>\<open>target[key]\<close>, \<^verbatim>\<open>target[key] = x\<close>, the spread and \<^verbatim>\<open>Object.entries\<close> on a store.\<close>

definition sget :: "store \<Rightarrow> sv \<Rightarrow> string \<Rightarrow> sv" where
  "sget st v k =
     (case cellOf st v of
        Some (ObjectCell kvs) \<Rightarrow> (case map_of kvs k of None \<Rightarrow> fromPrototypeS k | Some x \<Rightarrow> x)
      | Some (ArrayCell xs props) \<Rightarrow> (case map_of props k of None \<Rightarrow> fromPrototypeS k | Some x \<Rightarrow> x)
      | None \<Rightarrow> if nullishS v then SUndef else fromPrototypeS k)"

definition sset :: "store \<Rightarrow> sv \<Rightarrow> string \<Rightarrow> sv \<Rightarrow> store_error + store" where
  "sset st v k x =
     (case v of
        SRef a \<Rightarrow>
          (case cellOf st v of
             Some (ObjectCell kvs) \<Rightarrow> Inr (st[a := ObjectCell (assign k x kvs)])
           | Some (ArrayCell xs props) \<Rightarrow> Inr (st[a := ArrayCell xs (assign k x props)])
           | None \<Rightarrow> Inl TypeErrorInPlace)
      | SInherited n \<Rightarrow> Inr st
      | _ \<Rightarrow> Inl TypeErrorInPlace)"

definition spreadS :: "store \<Rightarrow> sv \<Rightarrow> store_error + sv list" where
  "spreadS st v =
     (case cellOf st v of
        Some (ArrayCell xs props) \<Rightarrow> Inr xs
      | Some (ObjectCell kvs) \<Rightarrow> Inl TypeErrorInPlace
      | None \<Rightarrow>
          (case v of
             SUndef \<Rightarrow> Inr []
           | SNull \<Rightarrow> Inr []
           | SStr s \<Rightarrow> Inr (map (\<lambda>c. SStr [c]) s)
           | _ \<Rightarrow> Inl TypeErrorInPlace))"

definition entriesS :: "store \<Rightarrow> sv \<Rightarrow> (string \<times> sv) list" where
  "entriesS st v = (case cellOf st v of Some (ObjectCell kvs) \<Rightarrow> kvs | _ \<Rightarrow> [])"

definition setAddS :: "sv list \<Rightarrow> sv \<Rightarrow> sv list" where
  "setAddS members x = (if x \<in> set members then members else members @ [x])"

definition arrayFromSetS :: "sv list \<Rightarrow> sv list" where
  "arrayFromSetS xs = foldl setAddS [] xs"

text \<open>
  The result of a computation on a store: the store after it, and its value or the
  exception; \<open>None\<close> when the fuel ran out.
\<close>

type_synonym 'a outcome = "(store \<times> (store_error + 'a)) option"

fun mergeEntriesInPlace :: "nat \<Rightarrow> store \<Rightarrow> sv \<Rightarrow> (string \<times> sv) list \<Rightarrow> sv outcome" where
  "mergeEntriesInPlace n st target [] = Some (st, Inr target)"
| "mergeEntriesInPlace n st target ((key, val) # rest) =
     (if isArrayS st val then
        (if truthyS (sget st target key) \<and> \<not> isArrayS st (sget st target key)
         then Some (st, Inl (MergeErrorInPlace val (sget st target key)))
         else case (if nullishS (sget st target key) then Inr [] else spreadS st (sget st target key)) of
                Inl e \<Rightarrow> Some (st, Inl e)
              | Inr old \<Rightarrow>
                  (case spreadS st val of
                     Inl e \<Rightarrow> Some (st, Inl e)
                   | Inr new \<Rightarrow>
                       (case alloc (ArrayCell (arrayFromSetS (old @ new)) []) st of
                          (st1, merged) \<Rightarrow>
                            (case sset st1 target key merged of
                               Inl e \<Rightarrow> Some (st1, Inl e)
                             | Inr st2 \<Rightarrow> mergeEntriesInPlace n st2 target rest))))
      else if isObjectS st val then
        (case (if nullishS (sget st target key) then alloc (ObjectCell []) st
               else (st, sget st target key)) of
           (st1, inner) \<Rightarrow>
             (case n of
                0 \<Rightarrow> None
              | Suc m \<Rightarrow>
                  (case mergeEntriesInPlace m st1 inner (entriesS st1 val) of
                     None \<Rightarrow> None
                   | Some (st2, Inl e) \<Rightarrow> Some (st2, Inl e)
                   | Some (st2, Inr merged) \<Rightarrow>
                       (case sset st2 target key merged of
                          Inl e \<Rightarrow> Some (st2, Inl e)
                        | Inr st3 \<Rightarrow> mergeEntriesInPlace n st3 target rest))))
      else if val \<noteq> SUndef then
        (case sset st target key val of
           Inl e \<Rightarrow> Some (st, Inl e)
         | Inr st1 \<Rightarrow> mergeEntriesInPlace n st1 target rest)
      else mergeEntriesInPlace n st target rest)"

definition deepMergeInPlace :: "nat \<Rightarrow> store \<Rightarrow> sv \<Rightarrow> sv \<Rightarrow> sv outcome" where
  "deepMergeInPlace n st target src =
     (if nullishS target then Some (st, Inr src)
      else if nullishS src then Some (st, Inr target)
      else mergeEntriesInPlace n st target (entriesS st src))"

fun reduceInPlace :: "nat \<Rightarrow> sv \<Rightarrow> sv list \<Rightarrow> store \<Rightarrow> sv outcome" where
  "reduceInPlace n acc [] st = Some (st, Inr acc)"
| "reduceInPlace n acc (x # xs) st =
     (case deepMergeInPlace n st acc x of
        None \<Rightarrow> None
      | Some (st1, Inl e) \<Rightarrow> Some (st1, Inl e)
      | Some (st1, Inr acc') \<Rightarrow> reduceInPlace n acc' xs st1)"

text \<open>
  The tree behind a value of the store, which \<^verbatim>\<open>JSON.stringify\<close> walks through.
\<close>

fun reify :: "nat \<Rightarrow> store \<Rightarrow> sv \<Rightarrow> jv option" where
  "reify n st SUndef = Some JUndef"
| "reify n st SNull = Some JNull"
| "reify n st (SBool b) = Some (JBool b)"
| "reify n st (SNum i) = Some (JNum i)"
| "reify n st (SStr s) = Some (JStr s)"
| "reify n st (SInherited k) = Some (JInherited k)"
| "reify 0 st (SRef a) = None"
| "reify (Suc n) st (SRef a) =
     (case cellOf st (SRef a) of
        None \<Rightarrow> None
      | Some (ObjectCell kvs) \<Rightarrow>
          map_option JObj (those (map (\<lambda>(k, v). map_option (Pair k) (reify n st v)) kvs))
      | Some (ArrayCell xs props) \<Rightarrow>
          (case those (map (reify n st) xs) of
             None \<Rightarrow> None
           | Some ys \<Rightarrow>
               map_option (JArr ys)
                 (those (map (\<lambda>(k, v). map_option (Pair k) (reify n st v)) props))))"


text \<open>
  Modelled from the spec: \<^verbatim>\<open>InitElementConfig\<close> and \<^verbatim>\<open>InitElement\<close> as above, with fragments
  in the store; \<^verbatim>\<open>_bind\<close> takes the store and returns it, with what it has built.
\<close>

record StoredElementConfig =
  storedConfig :: sv
  storedAuthentication :: sv

record ('r, 's) StoredElement =
  storedType :: InitElementType
  storedBind :: "('r, 's) InitBindOptions \<Rightarrow> store \<Rightarrow> store \<times> StoredElementConfig"

type_synonym ('r, 's) StoredConfig = "('r, 's) StoredElement list"

text \<open>Sequencing: an exception, or the end of the fuel, skips what follows.\<close>

definition thenInPlace :: "(store \<Rightarrow> 'a outcome) \<Rightarrow> ('a \<Rightarrow> store \<Rightarrow> 'b outcome) \<Rightarrow> store \<Rightarrow> 'b outcome" where
  "thenInPlace m f st =
     (case m st of
        None \<Rightarrow> None
      | Some (st1, Inl e) \<Rightarrow> Some (st1, Inl e)
      | Some (st1, Inr a) \<Rightarrow> f a st1)"

definition returnInPlace :: "'a \<Rightarrow> store \<Rightarrow> 'a outcome" where
  "returnInPlace a st = Some (st, Inr a)"

text \<open>
  \<^verbatim>\<open>elements.map((e, index) => e._bind({ index, ...renderOptions }))\<close>, the calls made one
  after the other; \<^verbatim>\<open>x ?? {}\<close>; \<^verbatim>\<open>InitConfig.bindForType\<close> and \<^verbatim>\<open>InitConfig._bind\<close>.
\<close>

fun bindEach ::
  "('r, 's) RenderOptions \<Rightarrow> (('r, 's) StoredElement \<times> nat) list \<Rightarrow> store \<Rightarrow>
     store \<times> StoredElementConfig list" where
  "bindEach renderOptions [] st = (st, [])"
| "bindEach renderOptions ((e, i) # rest) st =
     (case storedBind e (withIndex i renderOptions) st of
        (st1, r) \<Rightarrow> (case bindEach renderOptions rest st1 of (st2, rs) \<Rightarrow> (st2, r # rs)))"

definition orEmptyObject :: "sv \<Rightarrow> store \<Rightarrow> store \<times> sv" where
  "orEmptyObject v st = (if nullishS v then alloc (ObjectCell []) st else (st, v))"

definition bindForTypeInPlace ::
  "nat \<Rightarrow> InitElementType \<Rightarrow> ('r, 's) RenderOptions \<Rightarrow> ('r, 's) StoredConfig \<Rightarrow> store \<Rightarrow>
     StoredElementConfig option outcome" where
  "bindForTypeInPlace n ty renderOptions elements st =
     (let elems = filter (\<lambda>elem. storedType elem = ty) elements in
      if length elems = 0 then Some (st, Inr None)
      else
        case bindEach renderOptions (zip elems [0..<length elems]) st of
          (st1, bindResults) \<Rightarrow>
            thenInPlace (reduceInPlace n SUndef (map storedConfig bindResults)) (\<lambda>c st2.
              case orEmptyObject c st2 of
                (st3, c') \<Rightarrow>
                  thenInPlace (reduceInPlace n SUndef (map storedAuthentication bindResults))
                    (\<lambda>a. returnInPlace (Some \<lparr>storedConfig = c', storedAuthentication = a\<rparr>)) st3)
              st1)"

definition optStoredConfig :: "StoredElementConfig option \<Rightarrow> sv" where
  "optStoredConfig c = (case c of None \<Rightarrow> SUndef | Some r \<Rightarrow> storedConfig r)"

definition optStoredAuthentication :: "StoredElementConfig option \<Rightarrow> sv" where
  "optStoredAuthentication c = (case c of None \<Rightarrow> SUndef | Some r \<Rightarrow> storedAuthentication r)"

definition InitConfig_bindInPlace ::
  "nat \<Rightarrow> ('r, 's) RenderOptions \<Rightarrow> ('r, 's) StoredConfig \<Rightarrow> store \<Rightarrow> StoredElementConfig outcome" where
  "InitConfig_bindInPlace n bindOptions elements =
     thenInPlace (bindForTypeInPlace n PACKAGE bindOptions elements) (\<lambda>packageConfig.
     thenInPlace (bindForTypeInPlace n GROUP bindOptions elements) (\<lambda>groupsConfig.
     thenInPlace (bindForTypeInPlace n USER bindOptions elements) (\<lambda>usersConfig.
     thenInPlace (bindForTypeInPlace n SOURCE bindOptions elements) (\<lambda>sourcesConfig.
     thenInPlace (bindForTypeInPlace n FILE bindOptions elements) (\<lambda>filesConfig.
     thenInPlace (bindForTypeInPlace n COMMAND bindOptions elements) (\<lambda>commandsConfig.
     thenInPlace (bindForTypeInPlace n SERVICE bindOptions elements) (\<lambda>servicesConfig st.
       case alloc (ObjectCell
                     [(''packages'', optStoredConfig packageConfig),
                      (''groups'', optStoredConfig groupsConfig),
                      (''users'', optStoredConfig usersConfig),
                      (''sources'', optStoredConfig sourcesConfig),
                      (''files'', optStoredConfig filesConfig),
                      (''commands'', optStoredConfig commandsConfig),
                      (''services'', optStoredConfig servicesConfig)]) st of
         (st1, configObject) \<Rightarrow>
           thenInPlace
             (reduceInPlace n SUndef
                (map optStoredAuthentication
                   [packageConfig, groupsConfig, usersConfig, sourcesConfig, filesConfig,
                    commandsConfig, servicesConfig]))
             (\<lambda>a. returnInPlace \<lparr>storedConfig = configObject, storedAuthentication = a\<rparr>) st1)))))))"

text \<open>The registry, \<^verbatim>\<open>mapValues\<close> with a callback on the store, and \<^verbatim>\<open>CloudFormationInit.bind\<close>.\<close>

record ('r, 's) StoredInit =
  storedConfigSets :: "(string \<times> string list) list"
  storedConfigs :: "(string \<times> ('r, 's) StoredConfig) list"

fun mapValuesInPlaceLoop ::
  "(string \<times> 'b) list \<Rightarrow> (string \<times> 'a) list \<Rightarrow> ('a \<Rightarrow> store \<Rightarrow> 'b outcome) \<Rightarrow> store \<Rightarrow>
     (string \<times> 'b) list outcome" where
  "mapValuesInPlaceLoop ret [] fn st = Some (st, Inr ret)"
| "mapValuesInPlaceLoop ret ((k, v) # xs) fn st =
     thenInPlace (fn v) (\<lambda>mapped. mapValuesInPlaceLoop (assign k mapped ret) xs fn) st"

text \<open>
  A \<^verbatim>\<open>Record<string, string[]>\<close> as new objects of the store: an array for each list of
  names, and the object that holds them.
\<close>

fun allocEach :: "(string \<times> cell) list \<Rightarrow> store \<Rightarrow> store \<times> (string \<times> sv) list" where
  "allocEach [] st = (st, [])"
| "allocEach ((k, c) # rest) st =
     (case alloc c st of
        (st1, r) \<Rightarrow> (case allocEach rest st1 of (st2, rs) \<Rightarrow> (st2, (k, r) # rs)))"

definition allocNames :: "(string \<times> string list) list \<Rightarrow> store \<Rightarrow> store \<times> sv" where
  "allocNames sets st =
     (case allocEach (map (\<lambda>(k, names). (k, ArrayCell (map SStr names) [])) sets) st of
        (st1, props) \<Rightarrow> alloc (ObjectCell props) st1)"

definition definedS :: "sv \<Rightarrow> sv option" where
  "definedS v = (if v = SUndef then None else Some v)"

record stored_bind_result =
  storedConfigData :: sv
  storedAuthData :: sv

definition CloudFormationInit_bindInPlace ::
  "nat \<Rightarrow> ('r, 's) RenderOptions \<Rightarrow> ('r, 's) StoredInit \<Rightarrow> store \<Rightarrow> stored_bind_result outcome" where
  "CloudFormationInit_bindInPlace n bindOptions this =
     (let nonEmpty = mapValues (storedConfigs this) (\<lambda>c. if length c = 0 then None else Some c) in
      thenInPlace (mapValuesInPlaceLoop [] nonEmpty (InitConfig_bindInPlace n bindOptions))
        (\<lambda>bound st.
           case allocNames
                  (mapValues (storedConfigSets this)
                     (\<lambda>configNames. Some (filter (\<lambda>name. found nonEmpty name) configNames))) st of
             (st1, sets) \<Rightarrow>
               (case alloc (ObjectCell
                              (objectSpread [(''configSets'', sets)]
                                 (mapValues bound (\<lambda>c. definedS (storedConfig c))))) st1 of
                  (st2, document) \<Rightarrow>
                    thenInPlace
                      (reduceInPlace n SUndef (map (\<lambda>(name, c). storedAuthentication c) bound))
                      (\<lambda>auth. returnInPlace \<lparr>storedConfigData = document, storedAuthData = auth\<rparr>)
                      st2)))"

text \<open>
  \<^verbatim>\<open>_attach\<close> on a store: the fingerprint, and the document that was serialized for it.
\<close>

definition CloudFormationInit_attachInPlace ::
  "platform_env \<Rightarrow> nat \<Rightarrow> 's CfnResource \<Rightarrow> 'r AttachInitOptions \<Rightarrow> ('r, 's) StoredInit \<Rightarrow> store \<Rightarrow>
     (string \<times> jv) outcome" where
  "CloudFormationInit_attachInPlace env n attachedResource attachOptions this =
     thenInPlace
       (CloudFormationInit_bindInPlace n
          \<lparr>instanceRole = instanceRole attachOptions, platform = platform attachOptions,
           scope = stack attachedResource\<rparr> this)
       (\<lambda>bindResult st.
          case reify n st (storedConfigData bindResult) of
            None \<Rightarrow> None
          | Some document \<Rightarrow>
              Some (st, Inr (substr0 16 (contentHash env (JSON_stringify env document)), document)))"

text \<open>Two attachments of a registry, one after the other, with nothing in between.\<close>

definition attachTwice ::
  "platform_env \<Rightarrow> nat \<Rightarrow> 's CfnResource \<Rightarrow> 'r AttachInitOptions \<Rightarrow> ('r, 's) StoredInit \<Rightarrow> store \<Rightarrow>
     ((string \<times> jv) \<times> (string \<times> jv)) outcome" where
  "attachTwice env n attachedResource attachOptions this =
     thenInPlace (CloudFormationInit_attachInPlace env n attachedResource attachOptions this) (\<lambda>first.
     thenInPlace (CloudFormationInit_attachInPlace env n attachedResource attachOptions this) (\<lambda>second.
       returnInPlace (first, second)))"

section \<open>The binding order, as specified\<close>

text \<open>
  The specification of \<^verbatim>\<open>bind\<close>: the seven kinds in their fixed order; for one kind, the
  elements of that kind in insertion order, each with its zero-based position among
  them; the call expected for each of them, whose options are the render options and
  that position as the index; the calls made when the first \<open>n\<close> kinds have been bound;
  and the key of a kind in the fragment of a config.
\<close>

definition kindsInOrder :: "InitElementType list" where
  "kindsInOrder = [PACKAGE, GROUP, USER, SOURCE, FILE, COMMAND, SERVICE]"

definition kindGroup :: "InitElementType \<Rightarrow> ('r, 's) InitConfig \<Rightarrow> (('r, 's) InitElement \<times> nat) list" where
  "kindGroup ty elements =
     (let elems = filter (\<lambda>elem. elementType elem = ty) elements in zip elems [0..<length elems])"

definition kindCalls ::
  "InitElementType \<Rightarrow> ('r, 's) RenderOptions \<Rightarrow> ('r, 's) InitConfig \<Rightarrow> ('r, 's) bindCall list" where
  "kindCalls ty renderOptions elements =
     map (\<lambda>(e, i). (e, \<lparr>instanceRole = instanceRole renderOptions,
                         platform = platform renderOptions,
                         scope = scope renderOptions, index = i\<rparr>))
       (kindGroup ty elements)"

definition groupsUpTo ::
  "nat \<Rightarrow> ('r, 's) RenderOptions \<Rightarrow> ('r, 's) InitConfig \<Rightarrow> ('r, 's) bindCall list" where
  "groupsUpTo n renderOptions elements =
     concat (map (\<lambda>ty. kindCalls ty renderOptions elements) (take n kindsInOrder))"

text \<open>The kind and the index of a call.\<close>

definition callTag :: "('r, 's) bindCall \<Rightarrow> InitElementType \<times> nat" where
  "callTag c = (elementType (fst c), index (snd c))"

definition pluralName :: "InitElementType \<Rightarrow> string" where
  "pluralName ty =
     (case ty of PACKAGE \<Rightarrow> ''packages'' | GROUP \<Rightarrow> ''groups'' | USER \<Rightarrow> ''users''
      | SOURCE \<Rightarrow> ''sources'' | FILE \<Rightarrow> ''files'' | COMMAND \<Rightarrow> ''commands''
      | SERVICE \<Rightarrow> ''services'')"

text \<open>The registry invariant: a record has every name once.\<close>

definition uniqueNames :: "('r, 's) CloudFormationInit \<Rightarrow> bool" where
  "uniqueNames this = (distinct (map fst (configs this)) \<and> distinct (map fst (configSets this)))"

section \<open>Fragments of one shape\<close>

text \<open>
  The kinds of values \<^verbatim>\<open>deepMerge\<close> tells apart are arrays, objects and scalars.  A
  fragment fits a shape (itself a value) when every property of the fragment is a
  property of the shape, of the same kind, and fits it in turn, and no property has the
  name of a member of \<^verbatim>\<open>Object.prototype\<close>; an optional fragment of a shape is absent or
  an object that fits.  \<open>mergeLeft\<close> and \<open>mergeRight\<close> are the two
  groupings of three merges, an exception of the first merge being the result.
\<close>

fun isObject :: "jv \<Rightarrow> bool" where
  "isObject (JObj _) = True"
| "isObject _ = False"

fun isScalar :: "jv \<Rightarrow> bool" where
  "isScalar JNull = True"
| "isScalar (JBool _) = True"
| "isScalar (JNum _) = True"
| "isScalar (JStr _) = True"
| "isScalar _ = False"

definition sameKind :: "jv \<Rightarrow> jv \<Rightarrow> bool" where
  "sameKind u v =
     ((isArray u \<and> isArray v) \<or> (isObject u \<and> isObject v) \<or> (isScalar u \<and> isScalar v))"

function (sequential) fits :: "jv \<Rightarrow> jv \<Rightarrow> bool" where
  "fits (JObj shape) (JObj kvs) =
     (distinct (map fst kvs) \<and>
      list_all (\<lambda>(k, v). k \<notin> set objectPrototype \<and>
                          (case map_of shape k of
                             None \<Rightarrow> False
                           | Some u \<Rightarrow> sameKind u v \<and> fits u v)) kvs)"
| "fits _ _ = True"
  by pat_completeness auto
termination
proof (relation "measure (\<lambda>(u, v). size v)")
  show "wf (measure (\<lambda>(u :: jv, v :: jv). size v))" by simp
next
  fix shape kvs :: "(string \<times> jv) list" and x :: "string \<times> jv" and xa y x2
  assume "x \<in> set kvs" "(xa, y) = x"
  then have "(xa, y) \<in> set kvs" by simp
  then have "size y < Suc (size_list (size_prod (\<lambda>_. 0) size) kvs)"
    by (induction kvs) auto
  then show "((x2, y), JObj shape, JObj kvs) \<in> measure (\<lambda>(u, v). size v)" by simp
qed

definition fragmentOf :: "jv \<Rightarrow> jv \<Rightarrow> bool" where
  "fragmentOf shape x = (x = JUndef \<or> (isObject x \<and> fits shape x))"

definition mergeLeft :: "jv \<Rightarrow> jv \<Rightarrow> jv \<Rightarrow> merge_error + jv" where
  "mergeLeft a b c = (case deepMerge a b of Inl e \<Rightarrow> Inl e | Inr ab \<Rightarrow> deepMerge ab c)"

definition mergeRight :: "jv \<Rightarrow> jv \<Rightarrow> jv \<Rightarrow> merge_error + jv" where
  "mergeRight a b c = (case deepMerge b c of Inl e \<Rightarrow> Inl e | Inr bc \<Rightarrow> deepMerge a bc)"

text \<open>
  What a merge that does not throw computes: \<open>mergedValue old v\<close> is the value stored
  under a key whose value was \<open>old\<close> when the source has \<open>v\<close> there, \<open>mergeable old v\<close>
  says that this step does not throw, and \<open>mergedEntries t kvs\<close> stores the merged value
  of every entry of the source.
\<close>

definition mergedObject :: "jv \<Rightarrow> (string \<times> jv) list \<Rightarrow> jv" where
  "mergedObject target kvs = (case mergeEntries target kvs of Inl e \<Rightarrow> JUndef | Inr r \<Rightarrow> r)"

fun mergedValue :: "jv \<Rightarrow> jv \<Rightarrow> jv" where
  "mergedValue old (JArr vs props) =
     JArr (arrayFromSet ((case old of JArr xs ps \<Rightarrow> xs | _ \<Rightarrow> []) @ vs)) []"
| "mergedValue old (JObj kvs) = mergedObject (coalesce old (JObj [])) kvs"
| "mergedValue old v = v"

fun mergeable :: "jv \<Rightarrow> jv \<Rightarrow> bool" where
  "mergeable old (JArr vs props) = (old = JUndef \<or> isArray old)"
| "mergeable old (JObj kvs) =
     (case mergeEntries (coalesce old (JObj [])) kvs of Inl e \<Rightarrow> False | Inr r \<Rightarrow> True)"
| "mergeable old JUndef = False"
| "mergeable old (JInherited n) = False"
| "mergeable old v = True"

definition applyEntries ::
  "(string \<Rightarrow> jv \<Rightarrow> jv) \<Rightarrow> (string \<times> jv) list \<Rightarrow> (string \<times> jv) list \<Rightarrow> (string \<times> jv) list" where
  "applyEntries f t kvs = foldl (\<lambda>obj (k, v). AList.update k (f k v) obj) t kvs"

definition mergedEntries :: "(string \<times> jv) list \<Rightarrow> (string \<times> jv) list \<Rightarrow> (string \<times> jv) list" where
  "mergedEntries t kvs = applyEntries (\<lambda>k. mergedValue (jget (JObj t) k)) t kvs"

section \<open>Example inputs\<close>

definition exampleElement :: "InitElementType \<Rightarrow> string \<Rightarrow> jv \<Rightarrow> (unit, unit) InitElement" where
  "exampleElement ty name v =
     \<lparr>elementType = ty,
      elementBind = (\<lambda>options. \<lparr>config = JObj [(name, v)], authentication = JUndef\<rparr>)\<rparr>"

definition exampleElements :: "(unit, unit) InitConfig" where
  "exampleElements =
     [exampleElement SERVICE ''sysvinit'' (JObj [(''httpd'', JObj [(''enabled'', JBool True)])]),
      exampleElement PACKAGE ''yum'' (JObj [(''httpd'', JArr [] [])]),
      exampleElement FILE ''/etc/motd'' (JObj [(''content'', JStr ''hello'')]),
      exampleElement PACKAGE ''yum'' (JObj [(''git'', JArr [] [])])]"

definition exampleOptions :: "(unit, unit) RenderOptions" where
  "exampleOptions = \<lparr>instanceRole = (), platform = LINUX, scope = ()\<rparr>"

definition silentElement :: "InitElementType \<Rightarrow> (unit, unit) InitElement" where
  "silentElement ty =
     \<lparr>elementType = ty, elementBind = (\<lambda>options. \<lparr>config = JUndef, authentication = JUndef\<rparr>)\<rparr>"

definition emptyElement :: "InitElementType \<Rightarrow> (unit, unit) InitElement" where
  "emptyElement ty =
     \<lparr>elementType = ty, elementBind = (\<lambda>options. \<lparr>config = JObj [], authentication = JUndef\<rparr>)\<rparr>"

definition exampleInit :: "(unit, unit) CloudFormationInit" where
  "exampleInit =
     \<lparr>configSets = [(''default'', [''A'', ''B''])],
      configs = [(''A'', [exampleElement PACKAGE ''yum'' (JObj [(''httpd'', JArr [] [])])]), (''B'', [])]\<rparr>"

definition inheritedNameInit :: "(unit, unit) CloudFormationInit" where
  "inheritedNameInit =
     fromConfigSets
       [(''default'', [''A'', ''toString''])]
       [(''A'', [exampleElement PACKAGE ''yum'' (JObj [(''httpd'', JArr [] [])])]), (''toString'', [])]"

definition overwritingInit :: "(unit, unit) CloudFormationInit" where
  "overwritingInit =
     \<lparr>configSets = [(''default'', [''configSets''])],
      configs = [(''configSets'', [exampleElement PACKAGE ''yum'' (JObj [(''httpd'', JArr [] [])])])]\<rparr>"

definition exampleResource :: "unit CfnResource" where
  "exampleResource = \<lparr>stack = (), logicalId = ''Instance''\<rparr>"

definition exampleAttachOptions :: "unit AttachInitOptions" where
  "exampleAttachOptions =
     \<lparr>instanceRole = (), platform = LINUX, configSetsOption = None, embedFingerprint = None,
      printLog = None, ignoreFailures = None\<rparr>"

text \<open>
  A store with one fragment, \<^verbatim>\<open>{ yum: [{ name: 'httpd' }] }\<close> at address 0; an element that
  returns this fragment at every call, and an element that builds the fragment
  \<^verbatim>\<open>{ yum: [{ name: 'git' }] }\<close> anew at every call; a registry with one config of these two
  elements; and the document rendered for it when the array under \<^verbatim>\<open>yum\<close> has the given
  members.
\<close>

definition keptFragment :: store where
  "keptFragment =
     [ObjectCell [(''yum'', SRef 1)],
      ArrayCell [SRef 2] [],
      ObjectCell [(''name'', SStr ''httpd'')]]"

definition keepingElement :: "(unit, unit) StoredElement" where
  "keepingElement =
     \<lparr>storedType = PACKAGE,
      storedBind = (\<lambda>options st. (st, \<lparr>storedConfig = SRef 0, storedAuthentication = SUndef\<rparr>))\<rparr>"

definition buildingElement :: "(unit, unit) StoredElement" where
  "buildingElement =
     \<lparr>storedType = PACKAGE,
      storedBind = (\<lambda>options st.
        (st @ [ObjectCell [(''yum'', SRef (length st + 1))],
               ArrayCell [SRef (length st + 2)] [],
               ObjectCell [(''name'', SStr ''git'')]],
         \<lparr>storedConfig = SRef (length st), storedAuthentication = SUndef\<rparr>))\<rparr>"

definition keepingInit :: "(unit, unit) StoredInit" where
  "keepingInit =
     \<lparr>storedConfigSets = [(''default'', [''config''])],
      storedConfigs = [(''config'', [keepingElement, buildingElement])]\<rparr>"

definition keptDocument :: "jv list \<Rightarrow> jv" where
  "keptDocument members =
     JObj [(''configSets'', JObj [(''default'', JArr [JStr ''config''] [])]),
           (''config'',
            JObj [(''packages'', JObj [(''yum'', JArr members [])]),
                  (''groups'', JUndef), (''users'', JUndef), (''sources'', JUndef),
                  (''files'', JUndef), (''commands'', JUndef), (''services'', JUndef)])]"

definition exampleShape :: jv where
  "exampleShape =
     JObj [(''yum'', JObj [(''httpd'', JArr [] []), (''git'', JArr [] [])]), (''owner'', JStr [])]"

definition exampleFragments :: "jv \<times> jv \<times> jv" where
  "exampleFragments =
     (JObj [(''yum'', JObj [(''httpd'', JArr [JStr ''2.4''] [])])],
      JObj [(''owner'', JStr ''b''), (''yum'', JObj [(''git'', JArr [] [])])],
      JObj [(''yum'', JObj [(''httpd'', JArr [JStr ''2.4'', JStr ''2.2''] [])]), (''owner'', JStr ''c'')])"

section \<open>Properties\<close>

subsection \<open>Records as association lists\<close>

lemma map_of_assign:
  "map_of (assign k v obj) k' =
     (if k' = k \<and> \<not> (k = ''__proto__'' \<and> map_of obj k = None) then Some v else map_of obj k')"
  by (auto simp: assign_def update_conv')

lemma fst_assign_new:
  "k \<notin> fst ` set obj \<Longrightarrow>
   assign k v obj = (if k = ''__proto__'' then obj else obj @ [(k, v)])"
proof -
  assume n: "k \<notin> fst ` set obj"
  then have u: "AList.update k v obj = obj @ [(k, v)]" by (induction obj) auto
  from n have "map_of obj k = None" by (simp add: map_of_eq_None_iff)
  with u show ?thesis by (simp add: assign_def)
qed

lemma distinct_assign: "distinct (map fst obj) \<Longrightarrow> distinct (map fst (assign k v obj))"
  by (simp add: assign_def distinct_update)

lemma map_of_mapValuesLoop:
  "distinct (map fst xs) \<Longrightarrow>
   map_of (mapValuesLoop ret xs fn) k =
     (case map_of xs k of
        None \<Rightarrow> map_of ret k
      | Some v \<Rightarrow>
          (case fn v of
             None \<Rightarrow> map_of ret k
           | Some m \<Rightarrow> if k = ''__proto__'' \<and> map_of ret k = None then None else Some m))"
proof (induction xs arbitrary: ret)
  case Nil
  then show ?case by simp
next
  case (Cons x xs)
  obtain k' v' where x: "x = (k', v')" by (cases x)
  from Cons.prems x have d: "distinct (map fst xs)" and nk: "map_of xs k' = None"
    by (auto simp: map_of_eq_None_iff)
  show ?case
    using Cons.IH[OF d] nk x
    by (auto simp: map_of_assign split: option.splits)
qed

lemma map_of_mapValues:
  "distinct (map fst xs) \<Longrightarrow>
   map_of (mapValues xs fn) k =
     (if k = ''__proto__'' then None else case map_of xs k of None \<Rightarrow> None | Some v \<Rightarrow> fn v)"
  by (simp add: mapValues_def map_of_mapValuesLoop split: option.splits)

lemma fst_mapValuesLoop:
  "distinct (map fst xs) \<Longrightarrow> fst ` set ret \<inter> fst ` set xs = {} \<Longrightarrow>
   map fst (mapValuesLoop ret xs fn) =
     map fst ret @ map fst (filter (\<lambda>(k, v). fn v \<noteq> None \<and> k \<noteq> ''__proto__'') xs)"
proof (induction xs arbitrary: ret)
  case Nil
  then show ?case by simp
next
  case (Cons x xs)
  obtain k' v' where x: "x = (k', v')" by (cases x)
  from Cons.prems x have d: "distinct (map fst xs)" and nk: "k' \<notin> fst ` set xs"
    and nr: "k' \<notin> fst ` set ret" and dj: "fst ` set ret \<inter> fst ` set xs = {}"
    by auto
  show ?case
  proof (cases "fn v'")
    case None
    then show ?thesis using Cons.IH[OF d dj] x by simp
  next
    case (Some m)
    note u = fst_assign_new[OF nr, of m]
    have dj': "fst ` set (assign k' m ret) \<inter> fst ` set xs = {}"
      using dj nk u by auto
    show ?thesis using Cons.IH[OF d dj'] x Some u by simp
  qed
qed

lemma fst_mapValues:
  "distinct (map fst xs) \<Longrightarrow>
   map fst (mapValues xs fn) =
     map fst (filter (\<lambda>(k, v). fn v \<noteq> None \<and> k \<noteq> ''__proto__'') xs)"
  by (simp add: mapValues_def fst_mapValuesLoop)

lemma distinct_mapValues:
  "distinct (map fst xs) \<Longrightarrow> distinct (map fst (mapValues xs fn))"
  by (simp add: fst_mapValues distinct_map_filter)

lemma map_of_mapValuesThrowingLoop:
  "distinct (map fst xs) \<Longrightarrow> mapValuesThrowingLoop ret xs fn = Inr res \<Longrightarrow>
   map_of res k =
     (case map_of xs k of
        None \<Rightarrow> map_of ret k
      | Some v \<Rightarrow>
          (case fn v of
             Inr (Some m) \<Rightarrow> if k = ''__proto__'' \<and> map_of ret k = None then None else Some m
           | _ \<Rightarrow> map_of ret k))"
proof (induction xs arbitrary: ret)
  case Nil
  then show ?case by simp
next
  case (Cons x xs)
  obtain k' v' where x: "x = (k', v')" by (cases x)
  from Cons.prems x have d: "distinct (map fst xs)" and nk: "map_of xs k' = None"
    by (auto simp: map_of_eq_None_iff)
  show ?case
    using Cons.IH[OF d] Cons.prems(2) nk x
    by (auto simp: map_of_assign split: option.splits sum.splits)
qed

lemma fst_mapValuesThrowingLoop:
  "distinct (map fst xs) \<Longrightarrow> fst ` set ret \<inter> fst ` set xs = {} \<Longrightarrow>
   mapValuesThrowingLoop ret xs fn = Inr res \<Longrightarrow>
   map fst res =
     map fst ret @ map fst (filter (\<lambda>(k, v). fn v \<noteq> Inr None \<and> k \<noteq> ''__proto__'') xs)"
proof (induction xs arbitrary: ret)
  case Nil
  then show ?case by simp
next
  case (Cons x xs)
  obtain k' v' where x: "x = (k', v')" by (cases x)
  from Cons.prems x have d: "distinct (map fst xs)" and nk: "k' \<notin> fst ` set xs"
    and nr: "k' \<notin> fst ` set ret" and dj: "fst ` set ret \<inter> fst ` set xs = {}"
    by auto
  show ?case
  proof (cases "fn v'")
    case (Inl e)
    then show ?thesis using Cons.prems(3) x by simp
  next
    case (Inr r)
    show ?thesis
    proof (cases r)
      case None
      then show ?thesis using Cons.IH[OF d dj] Cons.prems(3) x Inr by simp
    next
      case (Some m)
      note u = fst_assign_new[OF nr, of m]
      have dj': "fst ` set (assign k' m ret) \<inter> fst ` set xs = {}"
        using dj nk u by auto
      show ?thesis using Cons.IH[OF d dj'] Cons.prems(3) x Some Inr u by simp
    qed
  qed
qed

lemma map_of_objectSpread:
  "distinct (map fst props) \<Longrightarrow>
   map_of (objectSpread base props) k =
     (case map_of props k of None \<Rightarrow> map_of base k | Some v \<Rightarrow> Some v)"
  unfolding objectSpread_def
proof (induction props arbitrary: base)
  case Nil
  then show ?case by simp
next
  case (Cons x xs)
  obtain k' v' where x: "x = (k', v')" by (cases x)
  from Cons.prems x have d: "distinct (map fst xs)" and nk: "map_of xs k' = None"
    by (auto simp: map_of_eq_None_iff)
  show ?case
    using Cons.IH[OF d] nk x
    by (auto simp: update_conv' split: option.splits)
qed

lemma distinct_objectSpread:
  "distinct (map fst base) \<Longrightarrow> distinct (map fst (objectSpread base props))"
  unfolding objectSpread_def
  by (induction props arbitrary: base) (auto simp: distinct_update)

text \<open>
  Every registry that the constructors and the mutators build has every name once.
\<close>

lemma distinct_objectAssign:
  "distinct (map fst base) \<Longrightarrow> distinct (map fst (objectAssign base props))"
  unfolding objectAssign_def
  by (induction props arbitrary: base) (auto simp: distinct_assign)

lemma uniqueNames_fromConfigSets: "uniqueNames (fromConfigSets configSetsProp configsProp)"
  by (simp add: uniqueNames_def fromConfigSets_def distinct_objectAssign)

lemma uniqueNames_fromElements: "uniqueNames (fromElements elements)"
  by (simp add: fromElements_def fromConfig_def uniqueNames_fromConfigSets)

lemma uniqueNames_addConfig:
  "uniqueNames this \<Longrightarrow> uniqueNames (fst (addConfig configName cfg this))"
  by (simp add: uniqueNames_def addConfig_def distinct_assign)

lemma uniqueNames_addConfigSet:
  "uniqueNames this \<Longrightarrow> uniqueNames (fst (addConfigSet configSetName configNames this))"
  by (simp add: uniqueNames_def addConfigSet_def Let_def distinct_assign)

subsection \<open>The calls made by InitConfig.bind\<close>

lemma fst_andThen:
  "fst (andThen m f) = (case snd m of Inl e \<Rightarrow> fst m | Inr a \<Rightarrow> fst m @ fst (f a))"
  by (cases m) (auto simp: andThen_def split: sum.splits prod.splits)

lemma snd_andThen:
  "snd (andThen m f) = (case snd m of Inl e \<Rightarrow> Inl e | Inr a \<Rightarrow> snd (f a))"
  by (cases m) (auto simp: andThen_def split: sum.splits prod.splits)

lemma fst_bindForType: "fst (bindForType ty ro elements) = kindCalls ty ro elements"
  by (simp add: bindForType_def kindCalls_def kindGroup_def Let_def bindElement_def
        withIndex_def comp_def case_prod_unfold)

lemma snd_bindForType:
  "filter (\<lambda>elem. elementType elem = ty) es \<noteq> [] \<Longrightarrow>
   snd (bindForType ty ro es) =
     (case reduceMerge JUndef
             (map (\<lambda>c. config (elementBind (fst c) (snd c))) (fst (bindForType ty ro es))) of
        Inl e \<Rightarrow> Inl e
      | Inr c \<Rightarrow>
          (case reduceMerge JUndef
                  (map (\<lambda>c. authentication (elementBind (fst c) (snd c)))
                     (fst (bindForType ty ro es))) of
             Inl e \<Rightarrow> Inl e
           | Inr a \<Rightarrow> Inr (Some \<lparr>config = coalesce c (JObj []), authentication = a\<rparr>)))"
  unfolding fst_bindForType
  by (simp add: bindForType_def kindCalls_def kindGroup_def Let_def bindElement_def
        withIndex_def comp_def case_prod_unfold split: sum.splits)

lemma groupsUpTo_simps:
  "groupsUpTo (Suc 0) ro es = kindCalls PACKAGE ro es"
  "groupsUpTo 2 ro es = kindCalls PACKAGE ro es @ kindCalls GROUP ro es"
  "groupsUpTo 3 ro es = kindCalls PACKAGE ro es @ kindCalls GROUP ro es @ kindCalls USER ro es"
  "groupsUpTo 4 ro es = kindCalls PACKAGE ro es @ kindCalls GROUP ro es @ kindCalls USER ro es @ kindCalls SOURCE ro es"
  "groupsUpTo 5 ro es = kindCalls PACKAGE ro es @ kindCalls GROUP ro es @ kindCalls USER ro es @ kindCalls SOURCE ro es @ kindCalls FILE ro es"
  "groupsUpTo 6 ro es = kindCalls PACKAGE ro es @ kindCalls GROUP ro es @ kindCalls USER ro es @ kindCalls SOURCE ro es @ kindCalls FILE ro es @ kindCalls COMMAND ro es"
  "groupsUpTo 7 ro es = kindCalls PACKAGE ro es @ kindCalls GROUP ro es @ kindCalls USER ro es @ kindCalls SOURCE ro es @ kindCalls FILE ro es @ kindCalls COMMAND ro es @ kindCalls SERVICE ro es"
  by (simp_all add: groupsUpTo_def kindsInOrder_def eval_nat_numeral)

lemma InitConfig_bind_calls_cases:
  "(fst (InitConfig_bind ro es) = groupsUpTo 7 ro es) \<or>
   (\<exists>e. snd (InitConfig_bind ro es) = Inl e \<and>
      (fst (InitConfig_bind ro es) = groupsUpTo 1 ro es \<or> fst (InitConfig_bind ro es) = groupsUpTo 2 ro es \<or>
       fst (InitConfig_bind ro es) = groupsUpTo 3 ro es \<or> fst (InitConfig_bind ro es) = groupsUpTo 4 ro es \<or>
       fst (InitConfig_bind ro es) = groupsUpTo 5 ro es \<or> fst (InitConfig_bind ro es) = groupsUpTo 6 ro es))"
  by (simp add: InitConfig_bind_def fst_andThen snd_andThen fst_bindForType groupsUpTo_simps
      split: sum.splits)

lemma InitConfig_bind_calls:
  "\<exists>n. 1 \<le> n \<and> n \<le> 7 \<and> fst (InitConfig_bind ro es) = groupsUpTo n ro es \<and>
       (\<forall>r. snd (InitConfig_bind ro es) = Inr r \<longrightarrow> n = 7)"
  using InitConfig_bind_calls_cases[of ro es]
proof (elim disjE exE conjE)
  assume "fst (InitConfig_bind ro es) = groupsUpTo 7 ro es"
  then show ?thesis by (intro exI[of _ 7]) simp
next
  fix e assume "snd (InitConfig_bind ro es) = Inl e" "fst (InitConfig_bind ro es) = groupsUpTo 1 ro es"
  then show ?thesis by (intro exI[of _ 1]) simp
next
  fix e assume "snd (InitConfig_bind ro es) = Inl e" "fst (InitConfig_bind ro es) = groupsUpTo 2 ro es"
  then show ?thesis by (intro exI[of _ 2]) simp
next
  fix e assume "snd (InitConfig_bind ro es) = Inl e" "fst (InitConfig_bind ro es) = groupsUpTo 3 ro es"
  then show ?thesis by (intro exI[of _ 3]) simp
next
  fix e assume "snd (InitConfig_bind ro es) = Inl e" "fst (InitConfig_bind ro es) = groupsUpTo 4 ro es"
  then show ?thesis by (intro exI[of _ 4]) simp
next
  fix e assume "snd (InitConfig_bind ro es) = Inl e" "fst (InitConfig_bind ro es) = groupsUpTo 5 ro es"
  then show ?thesis by (intro exI[of _ 5]) simp
next
  fix e assume "snd (InitConfig_bind ro es) = Inl e" "fst (InitConfig_bind ro es) = groupsUpTo 6 ro es"
  then show ?thesis by (intro exI[of _ 6]) simp
qed

lemma kindGroup_fst: "map fst (kindGroup ty es) = filter (\<lambda>elem. elementType elem = ty) es"
  by (simp add: kindGroup_def Let_def)

lemma kindGroup_snd: "map snd (kindGroup ty es) = [0..<length (filter (\<lambda>elem. elementType elem = ty) es)]"
  by (simp add: kindGroup_def Let_def)

lemma kindCalls_fst: "map fst (kindCalls ty ro es) = filter (\<lambda>elem. elementType elem = ty) es"
  by (simp add: kindCalls_def comp_def case_prod_unfold kindGroup_fst[symmetric])

lemma kindCalls_index:
  "map (\<lambda>c. index (snd c)) (kindCalls ty ro es) =
     [0..<length (filter (\<lambda>elem. elementType elem = ty) es)]"
  by (simp add: kindCalls_def comp_def case_prod_unfold kindGroup_snd[symmetric])

lemma kindCalls_options:
  "c \<in> set (kindCalls ty ro es) \<Longrightarrow>
   instanceRole (snd c) = instanceRole ro \<and> platform (snd c) = platform ro \<and>
   scope (snd c) = scope ro"
  by (auto simp: kindCalls_def)

lemma kindCalls_kind: "c \<in> set (kindCalls ty ro es) \<Longrightarrow> elementType (fst c) = ty"
proof -
  assume "c \<in> set (kindCalls ty ro es)"
  then have "fst c \<in> set (map fst (kindCalls ty ro es))" by simp
  then show ?thesis by (simp add: kindCalls_fst)
qed

lemma kindCalls_tags:
  "map callTag (kindCalls ty ro es) =
     map (Pair ty) [0..<length (filter (\<lambda>elem. elementType elem = ty) es)]"
proof -
  have "map callTag (kindCalls ty ro es) = map (\<lambda>c. (ty, index (snd c))) (kindCalls ty ro es)"
    by (rule map_cong) (auto simp: callTag_def dest: kindCalls_kind)
  also have "\<dots> = map (Pair ty) (map (\<lambda>c. index (snd c)) (kindCalls ty ro es))"
    by (simp add: comp_def)
  finally show ?thesis by (simp add: kindCalls_index)
qed

lemma groupsUpTo_tags:
  "map callTag (groupsUpTo n ro es) =
     concat (map (\<lambda>ty. map (Pair ty) [0..<length (filter (\<lambda>elem. elementType elem = ty) es)])
               (take n kindsInOrder))"
  by (simp add: groupsUpTo_def map_concat comp_def kindCalls_tags)

lemma distinct_tagged_ranges:
  "distinct ks \<Longrightarrow> distinct (concat (map (\<lambda>ty. map (Pair ty) [0..<f ty]) ks))"
  by (induction ks) (auto simp: distinct_map inj_on_def)

lemma distinct_groupsUpTo_tags:
  "distinct (map callTag (groupsUpTo n ro es))"
proof -
  have d: "distinct (take n kindsInOrder)"
    by (rule distinct_take) (simp add: kindsInOrder_def)
  show ?thesis
    unfolding groupsUpTo_tags by (rule distinct_tagged_ranges[OF d])
qed

lemma nth_after_tail:
  assumes "\<forall>x\<in>set A. \<not> P x" "\<forall>x\<in>set S. P x" "i < j" "j < length (A @ S)" "P ((A @ S) ! i)"
  shows "P ((A @ S) ! j)"
proof -
  have "\<not> i < length A" using assms(1,5) by (auto simp: nth_append)
  then show ?thesis using assms(2,3,4) by (auto simp: nth_append)
qed

lemma groupsUpTo_6_no_service:
  assumes "n \<le> 6" "x \<in> set (groupsUpTo n ro es)"
  shows "elementType (fst x) \<noteq> SERVICE"
proof -
  from assms(2) obtain ty where ty: "ty \<in> set (take n kindsInOrder)" "x \<in> set (kindCalls ty ro es)"
    by (auto simp: groupsUpTo_def)
  have "set (take n kindsInOrder) \<subseteq> set (take 6 kindsInOrder)"
    using assms(1) by (rule set_take_subset_set_take)
  with ty(1) have "ty \<noteq> SERVICE" by (auto simp: kindsInOrder_def)
  moreover have "elementType (fst x) = ty" using ty(2) by (rule kindCalls_kind)
  ultimately show ?thesis by simp
qed

lemma service_last_groupsUpTo:
  assumes "n \<le> 7" "i < j" "j < length (groupsUpTo n ro es)"
    and "elementType (fst (groupsUpTo n ro es ! i)) = SERVICE"
  shows "elementType (fst (groupsUpTo n ro es ! j)) = SERVICE"
proof (cases "n = 7")
  case True
  have split: "groupsUpTo n ro es = groupsUpTo 6 ro es @ kindCalls SERVICE ro es"
    using True by (simp add: groupsUpTo_simps)
  have A: "\<forall>x\<in>set (groupsUpTo 6 ro es). \<not> elementType (fst x) = SERVICE"
    using groupsUpTo_6_no_service[of 6] by blast
  have S: "\<forall>x\<in>set (kindCalls SERVICE ro es). elementType (fst x) = SERVICE"
    by (auto dest: kindCalls_kind)
  show ?thesis
    using nth_after_tail[where P="\<lambda>x. elementType (fst x) = SERVICE", OF A S assms(2)] assms(3,4)
    unfolding split by blast
next
  case False
  with assms(1) have "n \<le> 6" by simp
  moreover have "groupsUpTo n ro es ! i \<in> set (groupsUpTo n ro es)"
    using assms(2,3) by simp
  ultimately show ?thesis using assms(4) groupsUpTo_6_no_service by blast
qed

text \<open>
  C1.  The calls of \<^verbatim>\<open>_bind\<close> made by \<^verbatim>\<open>InitConfig._bind\<close> are those of the kinds in the fixed
  order package, group, user, source, file, command, service: of all seven when it
  returns, of the first \<open>n\<close> when the merge of kind \<open>n\<close> throws.  The calls for a kind are
  on the elements of that kind in insertion order; the options passed to the element
  at position \<open>i\<close> among them have the index \<open>i\<close> and the role, platform and scope of the
  render options.  A kind without elements is skipped (no call, no fragment); for a kind
  with elements, the fragments merged are those returned by these calls.  No two calls
  share kind and index, and no call on an element of another kind follows a call on a
  service element.
\<close>

theorem InitConfig_bind_order:
  "(\<exists>n. 1 \<le> n \<and> n \<le> 7 \<and>
        fst (InitConfig_bind ro es) =
          concat (map (\<lambda>ty. fst (bindForType ty ro es)) (take n kindsInOrder)) \<and>
        (\<forall>r. snd (InitConfig_bind ro es) = Inr r \<longrightarrow> n = 7)) \<and>
   (\<forall>ty. map fst (fst (bindForType ty ro es)) = filter (\<lambda>elem. elementType elem = ty) es \<and>
         map (\<lambda>c. index (snd c)) (fst (bindForType ty ro es)) =
           [0..<length (filter (\<lambda>elem. elementType elem = ty) es)] \<and>
         (\<forall>c\<in>set (fst (bindForType ty ro es)).
            instanceRole (snd c) = instanceRole ro \<and> platform (snd c) = platform ro \<and>
            scope (snd c) = scope ro)) \<and>
   (\<forall>ty. filter (\<lambda>elem. elementType elem = ty) es = [] \<longrightarrow> bindForType ty ro es = ([], Inr None)) \<and>
   (\<forall>ty. filter (\<lambda>elem. elementType elem = ty) es \<noteq> [] \<longrightarrow>
         snd (bindForType ty ro es) =
           (case reduceMerge JUndef
                   (map (\<lambda>c. config (elementBind (fst c) (snd c))) (fst (bindForType ty ro es))) of
              Inl e \<Rightarrow> Inl e
            | Inr c \<Rightarrow>
                (case reduceMerge JUndef
                        (map (\<lambda>c. authentication (elementBind (fst c) (snd c)))
                           (fst (bindForType ty ro es))) of
                   Inl e \<Rightarrow> Inl e
                 | Inr a \<Rightarrow> Inr (Some \<lparr>config = coalesce c (JObj []), authentication = a\<rparr>)))) \<and>
   distinct (map (\<lambda>c. (elementType (fst c), index (snd c))) (fst (InitConfig_bind ro es))) \<and>
   (\<forall>i j. i < j \<and> j < length (fst (InitConfig_bind ro es)) \<and>
          elementType (fst (fst (InitConfig_bind ro es) ! i)) = SERVICE \<longrightarrow>
          elementType (fst (fst (InitConfig_bind ro es) ! j)) = SERVICE)"
proof -
  obtain n where n: "1 \<le> n" "n \<le> 7" "fst (InitConfig_bind ro es) = groupsUpTo n ro es"
    "\<forall>r. snd (InitConfig_bind ro es) = Inr r \<longrightarrow> n = 7"
    using InitConfig_bind_calls[of ro es] by blast
  have g: "groupsUpTo n ro es = concat (map (\<lambda>ty. fst (bindForType ty ro es)) (take n kindsInOrder))"
    by (simp add: groupsUpTo_def fst_bindForType)
  have a: "\<exists>n. 1 \<le> n \<and> n \<le> 7 \<and>
        fst (InitConfig_bind ro es) =
          concat (map (\<lambda>ty. fst (bindForType ty ro es)) (take n kindsInOrder)) \<and>
        (\<forall>r. snd (InitConfig_bind ro es) = Inr r \<longrightarrow> n = 7)"
    using n g by (intro exI[of _ n]) simp
  have b: "\<forall>ty. map fst (fst (bindForType ty ro es)) = filter (\<lambda>elem. elementType elem = ty) es \<and>
         map (\<lambda>c. index (snd c)) (fst (bindForType ty ro es)) =
           [0..<length (filter (\<lambda>elem. elementType elem = ty) es)] \<and>
         (\<forall>c\<in>set (fst (bindForType ty ro es)).
            instanceRole (snd c) = instanceRole ro \<and> platform (snd c) = platform ro \<and>
            scope (snd c) = scope ro)"
    unfolding fst_bindForType using kindCalls_options[of _ _ ro es]
    by (simp add: kindCalls_fst kindCalls_index)
  have c: "\<forall>ty. filter (\<lambda>elem. elementType elem = ty) es = [] \<longrightarrow> bindForType ty ro es = ([], Inr None)"
    by (simp add: bindForType_def)
  have m: "\<forall>ty. filter (\<lambda>elem. elementType elem = ty) es \<noteq> [] \<longrightarrow>
         snd (bindForType ty ro es) =
           (case reduceMerge JUndef
                   (map (\<lambda>c. config (elementBind (fst c) (snd c))) (fst (bindForType ty ro es))) of
              Inl e \<Rightarrow> Inl e
            | Inr c \<Rightarrow>
                (case reduceMerge JUndef
                        (map (\<lambda>c. authentication (elementBind (fst c) (snd c)))
                           (fst (bindForType ty ro es))) of
                   Inl e \<Rightarrow> Inl e
                 | Inr a \<Rightarrow> Inr (Some \<lparr>config = coalesce c (JObj []), authentication = a\<rparr>)))"
    using snd_bindForType[of _ es ro] by blast
  have d: "distinct (map (\<lambda>c. (elementType (fst c), index (snd c))) (fst (InitConfig_bind ro es)))"
    unfolding n(3) using distinct_groupsUpTo_tags[of n ro es] by (simp add: callTag_def[abs_def])
  have e: "\<forall>i j. i < j \<and> j < length (fst (InitConfig_bind ro es)) \<and>
          elementType (fst (fst (InitConfig_bind ro es) ! i)) = SERVICE \<longrightarrow>
          elementType (fst (fst (InitConfig_bind ro es) ! j)) = SERVICE"
    unfolding n(3) using service_last_groupsUpTo[OF n(2)] by blast
  from a b c m d e show ?thesis by (intro conjI)
qed

theorem InitConfig_bind_order_witness:
  "snd (InitConfig_bind exampleOptions exampleElements) =
     Inr \<lparr>config = JObj
            [(''packages'', JObj [(''yum'', JObj [(''httpd'', JArr [] []), (''git'', JArr [] [])])]),
             (''groups'', JUndef), (''users'', JUndef), (''sources'', JUndef),
             (''files'', JObj [(''/etc/motd'', JObj [(''content'', JStr ''hello'')])]),
             (''commands'', JUndef),
             (''services'', JObj [(''sysvinit'', JObj [(''httpd'', JObj [(''enabled'', JBool True)])])])],
          authentication = JUndef\<rparr> \<and>
   fst (InitConfig_bind exampleOptions exampleElements) =
     [(exampleElements ! 1, \<lparr>instanceRole = (), platform = LINUX, scope = (), index = 0\<rparr>),
      (exampleElements ! 3, \<lparr>instanceRole = (), platform = LINUX, scope = (), index = 1\<rparr>),
      (exampleElements ! 2, \<lparr>instanceRole = (), platform = LINUX, scope = (), index = 0\<rparr>),
      (exampleElements ! 0, \<lparr>instanceRole = (), platform = LINUX, scope = (), index = 0\<rparr>)]"
proof -
  have r: "snd (InitConfig_bind exampleOptions exampleElements) =
     Inr \<lparr>config = JObj
            [(''packages'', JObj [(''yum'', JObj [(''httpd'', JArr [] []), (''git'', JArr [] [])])]),
             (''groups'', JUndef), (''users'', JUndef), (''sources'', JUndef),
             (''files'', JObj [(''/etc/motd'', JObj [(''content'', JStr ''hello'')])]),
             (''commands'', JUndef),
             (''services'', JObj [(''sysvinit'', JObj [(''httpd'', JObj [(''enabled'', JBool True)])])])],
          authentication = JUndef\<rparr>"
    by (simp add: InitConfig_bind_def snd_andThen bindForType_def bindElement_def exampleElements_def
        exampleElement_def deepMerge_def coalesce_def arrayFromSet_def setAdd_def
        fromPrototype_def objectPrototype_def assign_def
        optConfig_def optAuthentication_def upt_rec)
  from InitConfig_bind_order[of exampleOptions exampleElements]
  obtain n where "fst (InitConfig_bind exampleOptions exampleElements) =
        concat (map (\<lambda>ty. fst (bindForType ty exampleOptions exampleElements)) (take n kindsInOrder))"
    and "\<forall>r. snd (InitConfig_bind exampleOptions exampleElements) = Inr r \<longrightarrow> n = 7"
    by blast
  with r have "fst (InitConfig_bind exampleOptions exampleElements) =
        concat (map (\<lambda>ty. fst (bindForType ty exampleOptions exampleElements)) (take 7 kindsInOrder))"
    by simp
  also have "\<dots> =
     [(exampleElements ! 1, \<lparr>instanceRole = (), platform = LINUX, scope = (), index = 0\<rparr>),
      (exampleElements ! 3, \<lparr>instanceRole = (), platform = LINUX, scope = (), index = 1\<rparr>),
      (exampleElements ! 2, \<lparr>instanceRole = (), platform = LINUX, scope = (), index = 0\<rparr>),
      (exampleElements ! 0, \<lparr>instanceRole = (), platform = LINUX, scope = (), index = 0\<rparr>)]"
    by (simp add: kindsInOrder_def bindForType_def bindElement_def withIndex_def exampleOptions_def
          exampleElements_def exampleElement_def upt_rec)
  finally show ?thesis using r by simp
qed

subsection \<open>The fragment of a config\<close>

lemma InitConfig_bind_Inr:
  assumes "snd (InitConfig_bind ro es) = Inr r"
  shows "\<exists>p g u s f c sv.
           snd (bindForType PACKAGE ro es) = Inr p \<and> snd (bindForType GROUP ro es) = Inr g \<and>
           snd (bindForType USER ro es) = Inr u \<and> snd (bindForType SOURCE ro es) = Inr s \<and>
           snd (bindForType FILE ro es) = Inr f \<and> snd (bindForType COMMAND ro es) = Inr c \<and>
           snd (bindForType SERVICE ro es) = Inr sv \<and>
           config r = JObj [(''packages'', optConfig p), (''groups'', optConfig g),
                            (''users'', optConfig u), (''sources'', optConfig s),
                            (''files'', optConfig f), (''commands'', optConfig c),
                            (''services'', optConfig sv)]"
  using assms
  by (auto simp: InitConfig_bind_def snd_andThen split: sum.splits)

lemma InitConfig_bind_kind:
  assumes "snd (InitConfig_bind ro es) = Inr r"
  shows "\<exists>kc. snd (bindForType ty ro es) = Inr kc \<and> jget (config r) (pluralName ty) = optConfig kc"
  using InitConfig_bind_Inr[OF assms]
  by (cases ty) (auto simp: pluralName_def)

lemma InitConfig_bind_keys:
  assumes "snd (InitConfig_bind ro es) = Inr r"
  shows "map fst (entries (config r)) = map pluralName kindsInOrder"
  using InitConfig_bind_Inr[OF assms]
  by (auto simp: pluralName_def kindsInOrder_def)

lemma bindForType_Inr:
  assumes "snd (bindForType ty ro es) = Inr kc"
  shows "(filter (\<lambda>elem. elementType elem = ty) es = [] \<longrightarrow> kc = None) \<and>
         (filter (\<lambda>elem. elementType elem = ty) es \<noteq> [] \<longrightarrow>
            (\<exists>m a. reduceMerge JUndef
                     (map (\<lambda>(e, i). config (elementBind e (withIndex i ro))) (kindGroup ty es)) = Inr m \<and>
                   kc = Some \<lparr>config = coalesce m (JObj []), authentication = a\<rparr>))"
  using assms
  by (auto simp: bindForType_def bindElement_def kindGroup_def Let_def comp_def case_prod_unfold
        split: sum.splits if_splits)

lemma coalesce_defined: "coalesce m (JObj []) \<noteq> JUndef"
  by (cases m) (auto simp: coalesce_def)

text \<open>
  C6, as the code has it.  The fragment of a config has the seven plural names as its
  keys.  The value under the plural name of a kind is \<^verbatim>\<open>undefined\<close> (the key is omitted
  when the document is serialized) exactly when the config has no element of that
  kind.  When it has some, the value is the merge of their fragments, and the empty
  object when they contribute nothing.
\<close>

theorem kind_fragment_key:
  assumes "snd (InitConfig_bind ro es) = Inr r"
  shows "map fst (entries (config r)) = map pluralName kindsInOrder \<and>
         (jget (config r) (pluralName ty) = JUndef \<longleftrightarrow> filter (\<lambda>elem. elementType elem = ty) es = []) \<and>
         (filter (\<lambda>elem. elementType elem = ty) es \<noteq> [] \<longrightarrow>
            (\<exists>m. reduceMerge JUndef
                   (map (\<lambda>(e, i). config (elementBind e (withIndex i ro))) (kindGroup ty es)) = Inr m \<and>
                 jget (config r) (pluralName ty) = coalesce m (JObj [])))"
proof -
  obtain kc where kc: "snd (bindForType ty ro es) = Inr kc"
    "jget (config r) (pluralName ty) = optConfig kc"
    using InitConfig_bind_kind[OF assms] by blast
  show ?thesis
    using bindForType_Inr[OF kc(1)] kc(2) InitConfig_bind_keys[OF assms]
    by (cases "filter (\<lambda>elem. elementType elem = ty) es = []")
       (auto simp: optConfig_def coalesce_defined)
qed

lemma exampleElements_bound:
  "\<exists>r. snd (InitConfig_bind exampleOptions exampleElements) = Inr r"
  by (simp add: InitConfig_bind_def snd_andThen bindForType_def bindElement_def exampleElements_def
        exampleElement_def deepMerge_def coalesce_def arrayFromSet_def setAdd_def
        fromPrototype_def objectPrototype_def assign_def
        optConfig_def optAuthentication_def upt_rec)

theorem kind_fragment_key_witness:
  "\<exists>r. snd (InitConfig_bind exampleOptions exampleElements) = Inr r \<and>
       jget (config r) (pluralName GROUP) = JUndef \<and>
       jget (config r) (pluralName PACKAGE) \<noteq> JUndef"
proof -
  obtain r where r: "snd (InitConfig_bind exampleOptions exampleElements) = Inr r"
    using exampleElements_bound by blast
  have "jget (config r) (pluralName GROUP) = JUndef"
    using kind_fragment_key[OF r, of GROUP] by (simp add: exampleElements_def exampleElement_def)
  moreover have "jget (config r) (pluralName PACKAGE) \<noteq> JUndef"
    using kind_fragment_key[OF r, of PACKAGE] by (simp add: exampleElements_def exampleElement_def)
  ultimately show ?thesis using r by blast
qed

theorem kind_fragment_key_counterexample:
  "map (\<lambda>(e, i). config (elementBind e (withIndex i exampleOptions)))
     (kindGroup PACKAGE [silentElement PACKAGE]) = [JUndef] \<and>
   snd (InitConfig_bind exampleOptions [silentElement PACKAGE]) =
     Inr \<lparr>config = JObj [(''packages'', JObj []), (''groups'', JUndef), (''users'', JUndef),
                          (''sources'', JUndef), (''files'', JUndef), (''commands'', JUndef),
                          (''services'', JUndef)],
          authentication = JUndef\<rparr> \<and>
   map (\<lambda>(e, i). config (elementBind e (withIndex i exampleOptions)))
     (kindGroup PACKAGE [emptyElement PACKAGE]) = [JObj []] \<and>
   snd (InitConfig_bind exampleOptions [emptyElement PACKAGE]) =
     Inr \<lparr>config = JObj [(''packages'', JObj []), (''groups'', JUndef), (''users'', JUndef),
                          (''sources'', JUndef), (''files'', JUndef), (''commands'', JUndef),
                          (''services'', JUndef)],
          authentication = JUndef\<rparr>"
  by (simp add: InitConfig_bind_def snd_andThen bindForType_def bindElement_def silentElement_def
        emptyElement_def kindGroup_def deepMerge_def coalesce_def optConfig_def
        optAuthentication_def)

subsection \<open>Registration\<close>

text \<open>
  C7.  \<^verbatim>\<open>addConfig\<close> with a name of the catalog, and \<^verbatim>\<open>addConfigSet\<close> with the name of a
  config set, throw the duplicate-name error and leave the registry as it was.
\<close>

theorem duplicate_name_rejected:
  "(map_of (configs this) configName \<noteq> None \<longrightarrow>
      addConfig configName cfg this = (this, Some (DuplicateConfig configName))) \<and>
   (map_of (configSets this) configSetName \<noteq> None \<longrightarrow>
      addConfigSet configSetName configNames this = (this, Some (DuplicateConfigSet configSetName)))"
  by (simp add: addConfig_def addConfigSet_def Let_def found_def)

theorem duplicate_name_rejected_witness:
  "addConfig ''A'' [] exampleInit = (exampleInit, Some (DuplicateConfig ''A'')) \<and>
   addConfigSet ''default'' (Some [''A'']) exampleInit =
     (exampleInit, Some (DuplicateConfigSet ''default''))"
  using duplicate_name_rejected[of exampleInit "''A''" "[]" "''default''" "Some [''A'']"]
  by (simp add: exampleInit_def)

text \<open>
  C8, as the code has it.  When the name is not yet a config set and some of the config
  names are not in the catalog, \<^verbatim>\<open>addConfigSet\<close> throws the unknown-reference error, whose
  text lists every such name (in the order given, separated by commas), and the
  registry is as it was.  The names here are ordinary ones: a name of a member of
  \<^verbatim>\<open>Object.prototype\<close> is read from the prototype and so taken for a config set, or a
  config, that exists.  (With the name of an existing config set the duplicate-name
  error comes first.)
\<close>

theorem unknown_configs_rejected:
  assumes "map_of (configSets this) configSetName = None" "configSetName \<notin> set objectPrototype"
    and "\<exists>c\<in>set configNames. map_of (configs this) c = None \<and> c \<notin> set objectPrototype"
  shows "addConfigSet configSetName (Some configNames) this =
           (this, Some (UnknownConfigs configSetName
                          (filter (\<lambda>c. map_of (configs this) c = None \<and> c \<notin> set objectPrototype)
                             configNames))) \<and>
         message (UnknownConfigs configSetName
                    (filter (\<lambda>c. map_of (configs this) c = None \<and> c \<notin> set objectPrototype)
                       configNames)) =
           ''Unknown configs referenced in definition of '' @ quoted configSetName @ '': '' @
           join '','' (filter (\<lambda>c. map_of (configs this) c = None \<and> c \<notin> set objectPrototype)
                        configNames)"
proof -
  have f: "(\<lambda>c. \<not> found (configs this) c) =
           (\<lambda>c. map_of (configs this) c = None \<and> c \<notin> set objectPrototype)"
    by (auto simp: found_def)
  from assms(3) have "filter (\<lambda>c. map_of (configs this) c = None \<and> c \<notin> set objectPrototype)
                        configNames \<noteq> []"
    by (auto simp: filter_empty_conv)
  with assms(1,2) show ?thesis
    by (simp add: addConfigSet_def Let_def f) (simp add: found_def)
qed

theorem unknown_configs_rejected_witness:
  "addConfigSet ''web'' (Some [''X'', ''A'', ''Y'']) exampleInit =
     (exampleInit, Some (UnknownConfigs ''web'' [''X'', ''Y''])) \<and>
   message (UnknownConfigs ''web'' [''X'', ''Y'']) =
     ''Unknown configs referenced in definition of '' @ [CHR 0x27] @ ''web'' @ [CHR 0x27] @ '': X,Y''"
  using unknown_configs_rejected[of exampleInit "''web''" "[''X'', ''A'', ''Y'']"]
  by (simp add: exampleInit_def quoted_def objectPrototype_def)

theorem unknown_configs_counterexample:
  "map_of (configs exampleInit) ''X'' = None \<and>
   addConfigSet ''default'' (Some [''X'']) exampleInit =
     (exampleInit, Some (DuplicateConfigSet ''default'')) \<and>
   map_of (configs exampleInit) ''toString'' = None \<and>
   addConfigSet ''web'' (Some [''toString'']) exampleInit =
     (exampleInit\<lparr>configSets := [(''default'', [''A'', ''B'']), (''web'', [''toString''])]\<rparr>, None)"
  by (simp add: exampleInit_def addConfigSet_def found_def objectPrototype_def assign_def)

subsection \<open>The rendered document\<close>

lemma map_of_nonEmptyConfigs:
  "distinct (map fst (configs this)) \<Longrightarrow>
   map_of (nonEmptyConfigs this) n =
     (if n = ''__proto__'' then None
      else case map_of (configs this) n of None \<Rightarrow> None | Some c \<Rightarrow> if isEmpty c then None else Some c)"
  by (simp add: nonEmptyConfigs_def map_of_mapValues)

lemma distinct_nonEmptyConfigs:
  "distinct (map fst (configs this)) \<Longrightarrow> distinct (map fst (nonEmptyConfigs this))"
  by (simp add: nonEmptyConfigs_def distinct_mapValues)

lemma proto_inherited: "''__proto__'' \<in> set objectPrototype"
  by (simp add: objectPrototype_def)

lemma found_nonEmptyConfigs:
  assumes "distinct (map fst (configs this))"
  shows "found (nonEmptyConfigs this) n \<longleftrightarrow>
     (\<exists>c. map_of (configs this) n = Some c \<and> \<not> isEmpty c) \<or> n \<in> set objectPrototype"
proof -
  note m = map_of_nonEmptyConfigs[OF assms, of n]
  show ?thesis
    unfolding found_def m using proto_inherited by (auto split: option.splits)
qed

lemma map_of_configNameToBindResult:
  assumes "distinct (map fst (configs this))" "configNameToBindResult ro this = Inr bound"
  shows "map_of bound n =
     (case map_of (nonEmptyConfigs this) n of
        None \<Rightarrow> None
      | Some c \<Rightarrow> (case snd (InitConfig_bind ro c) of Inl e \<Rightarrow> None | Inr r \<Rightarrow> Some r))"
  using map_of_mapValuesThrowingLoop[OF distinct_nonEmptyConfigs[OF assms(1)]
      assms(2)[unfolded configNameToBindResult_def mapValuesThrowing_def], of n]
    map_of_nonEmptyConfigs[OF assms(1), of n]
  by (auto split: option.splits sum.splits if_splits)

lemma fst_configNameToBindResult:
  assumes "distinct (map fst (configs this))" "configNameToBindResult ro this = Inr bound"
  shows "map fst bound = map fst (nonEmptyConfigs this)"
proof -
  let ?keep = "\<lambda>(k, v). (case snd (InitConfig_bind ro v) of Inl e \<Rightarrow> Inl e | Inr r \<Rightarrow> Inr (Some r)) \<noteq> Inr None
                          \<and> k \<noteq> ''__proto__''"
  have "map fst bound = map fst (filter ?keep (nonEmptyConfigs this))"
    using fst_mapValuesThrowingLoop[OF distinct_nonEmptyConfigs[OF assms(1)] _
      assms(2)[unfolded configNameToBindResult_def mapValuesThrowing_def]]
    by simp
  also have "filter ?keep (nonEmptyConfigs this) = nonEmptyConfigs this"
  proof (rule filter_True, clarify)
    fix k v assume m: "(k, v) \<in> set (nonEmptyConfigs this)"
    then have "map_of (nonEmptyConfigs this) k = Some v"
      using distinct_nonEmptyConfigs[OF assms(1)] by simp
    then have "k \<noteq> ''__proto__''"
      using map_of_nonEmptyConfigs[OF assms(1), of k] by (auto split: if_splits)
    then show "(case snd (InitConfig_bind ro v) of Inl e \<Rightarrow> Inl e | Inr r \<Rightarrow> Inr (Some r)) \<noteq> Inr None
               \<and> k \<noteq> ''__proto__''"
      by (auto split: sum.splits)
  qed
  finally show ?thesis .
qed

lemma bound_config_defined:
  assumes "distinct (map fst (configs this))" "configNameToBindResult ro this = Inr bound"
    and "map_of bound n = Some r"
  shows "\<exists>c. map_of (nonEmptyConfigs this) n = Some c \<and> snd (InitConfig_bind ro c) = Inr r \<and>
             defined (config r) = Some (config r)"
proof -
  from map_of_configNameToBindResult[OF assms(1,2), of n] assms(3)
  obtain c where c: "map_of (nonEmptyConfigs this) n = Some c" "snd (InitConfig_bind ro c) = Inr r"
    by (auto split: option.splits sum.splits)
  from InitConfig_bind_Inr[OF c(2)] have "config r \<noteq> JUndef" by auto
  then show ?thesis using c by (simp add: defined_def)
qed

lemma map_of_renderedConfigs:
  assumes "distinct (map fst (configs this))" "configNameToBindResult ro this = Inr bound"
  shows "map_of (renderedConfigs bound) n = map_option config (map_of bound n)"
proof -
  have d: "distinct (map fst bound)"
    using fst_configNameToBindResult[OF assms] distinct_nonEmptyConfigs[OF assms(1)] by simp
  have p: "map_of bound ''__proto__'' = None"
    using map_of_configNameToBindResult[OF assms, of "''__proto__''"]
      map_of_nonEmptyConfigs[OF assms(1), of "''__proto__''"] by simp
  show ?thesis
    using bound_config_defined[OF assms, of n] p
    by (auto simp: renderedConfigs_def map_of_mapValues[OF d] split: option.splits)
qed

lemma distinct_renderedConfigs:
  assumes "distinct (map fst (configs this))" "configNameToBindResult ro this = Inr bound"
  shows "distinct (map fst (renderedConfigs bound))"
proof -
  have d: "distinct (map fst bound)"
    using fst_configNameToBindResult[OF assms] distinct_nonEmptyConfigs[OF assms(1)] by simp
  then show ?thesis by (simp add: renderedConfigs_def distinct_mapValues)
qed

lemma CloudFormationInit_bind_Inr:
  assumes "CloudFormationInit_bind ro this = Inr res"
  shows "\<exists>bound. configNameToBindResult ro this = Inr bound \<and>
           configData res = JObj (objectSpread [(''configSets'', namesObject (renderedConfigSets this))]
                                    (renderedConfigs bound)) \<and>
           reduceMerge JUndef (map (\<lambda>(name, c). authentication c) bound) = Inr (authData res)"
  using assms by (auto simp: CloudFormationInit_bind_def split: sum.splits)

lemma nonEmpty_config_bound:
  assumes "distinct (map fst (configs this))" "CloudFormationInit_bind ro this = Inr res"
    and "map_of (nonEmptyConfigs this) n = Some c"
  shows "\<exists>r. snd (InitConfig_bind ro c) = Inr r"
proof -
  obtain bound where b: "configNameToBindResult ro this = Inr bound"
    using CloudFormationInit_bind_Inr[OF assms(2)] by blast
  from assms(3) have "n \<in> fst ` set (nonEmptyConfigs this)"
    by (metis map_of_eq_None_iff option.distinct(1))
  then have "n \<in> fst ` set bound" using fst_configNameToBindResult[OF assms(1) b]
    by (metis set_map)
  then obtain r where "map_of bound n = Some r" by (metis map_of_eq_None_iff not_Some_eq)
  with map_of_configNameToBindResult[OF assms(1) b, of n] assms(3) show ?thesis
    by (auto split: sum.splits)
qed

text \<open>The own properties of the rendered document.\<close>

lemma configData_lookup:
  assumes "distinct (map fst (configs this))" "CloudFormationInit_bind ro this = Inr res"
  shows "isObject (configData res) \<and>
     map_of (entries (configData res)) n =
     (case map_of (nonEmptyConfigs this) n of
        None \<Rightarrow> (if n = ''configSets'' then Some (namesObject (renderedConfigSets this)) else None)
      | Some c \<Rightarrow> (case snd (InitConfig_bind ro c) of Inl e \<Rightarrow> None | Inr r \<Rightarrow> Some (config r)))"
proof -
  obtain bound where b: "configNameToBindResult ro this = Inr bound"
    "configData res = JObj (objectSpread [(''configSets'', namesObject (renderedConfigSets this))]
                                    (renderedConfigs bound))"
    using CloudFormationInit_bind_Inr[OF assms(2)] by blast
  have l: "map_of (renderedConfigs bound) n = map_option config (map_of bound n)"
    by (rule map_of_renderedConfigs[OF assms(1) b(1)])
  have m: "map_of bound n =
     (case map_of (nonEmptyConfigs this) n of
        None \<Rightarrow> None
      | Some c \<Rightarrow> (case snd (InitConfig_bind ro c) of Inl e \<Rightarrow> None | Inr r \<Rightarrow> Some r))"
    by (rule map_of_configNameToBindResult[OF assms(1) b(1)])
  show ?thesis
    unfolding b(2) using l m nonEmpty_config_bound[OF assms, of n]
    by (auto simp: map_of_objectSpread[OF distinct_renderedConfigs[OF assms(1) b(1)]]
          split: option.splits sum.splits if_splits)
qed

lemma ownProperty_entries:
  "isObject v \<Longrightarrow> ownProperty v k = (case map_of (entries v) k of None \<Rightarrow> JUndef | Some x \<Rightarrow> x)"
  by (cases v) simp_all

lemma jget_entries:
  "isObject v \<Longrightarrow> map_of (entries v) k = Some x \<Longrightarrow> jget v k = x"
  by (cases v) simp_all

lemma ownProperty_namesObject:
  "ownProperty (namesObject sets) s =
     (case map_of sets s of None \<Rightarrow> JUndef | Some names \<Rightarrow> JArr (map JStr names) [])"
  by (induction sets) (auto simp: namesObject_def)

lemma map_of_renderedConfigSets:
  assumes "distinct (map fst (configs this))" "distinct (map fst (configSets this))"
  shows "map_of (renderedConfigSets this) s =
     (if s = ''__proto__'' then None
      else map_option
             (filter (\<lambda>n. (\<exists>c. map_of (configs this) n = Some c \<and> \<not> isEmpty c) \<or>
                           n \<in> set objectPrototype))
             (map_of (configSets this) s))"
proof -
  have "(\<lambda>name. found (nonEmptyConfigs this) name) =
        (\<lambda>n. (\<exists>c. map_of (configs this) n = Some c \<and> \<not> isEmpty c) \<or> n \<in> set objectPrototype)"
    by (simp add: found_nonEmptyConfigs[OF assms(1)] fun_eq_iff)
  then show ?thesis
    by (simp add: renderedConfigSets_def map_of_mapValues[OF assms(2)] split: option.splits)
qed

lemma exampleInit_bound:
  "\<exists>res. CloudFormationInit_bind exampleOptions exampleInit = Inr res"
  by (simp add: CloudFormationInit_bind_def configNameToBindResult_def mapValuesThrowing_def
        nonEmptyConfigs_def mapValues_def isEmpty_def exampleInit_def
        InitConfig_bind_def snd_andThen bindForType_def bindElement_def
        exampleElement_def deepMerge_def coalesce_def arrayFromSet_def setAdd_def
        fromPrototype_def objectPrototype_def assign_def
        optConfig_def optAuthentication_def)

text \<open>
  In a registry that has every name once, a config without elements is not among the
  non-empty configs, so it has no entry among the rendered configs (the properties
  spread into the document), and the document has no own property of its name (the
  slot \<^verbatim>\<open>configSets\<close> apart, which is not a config entry).  The rendered member list of a
  config set is the declared list filtered, in its order, by the test
  \<^verbatim>\<open>nonEmptyConfigs[name] !== undefined\<close>: it keeps the names of the non-empty configs,
  and every name of a member of \<^verbatim>\<open>Object.prototype\<close>.  So an empty config is not in the
  list unless its name is such a name.
\<close>

lemma empty_config_rendering:
  assumes "uniqueNames this"
    and "map_of (configs this) name = Some c" "isEmpty c"
  shows "name \<notin> fst ` set (nonEmptyConfigs this) \<and>
    (\<forall>bound. configNameToBindResult ro this = Inr bound \<longrightarrow> name \<notin> fst ` set (renderedConfigs bound)) \<and>
    (\<forall>s members. s \<noteq> ''__proto__'' \<and> map_of (configSets this) s = Some members \<longrightarrow>
       map_of (renderedConfigSets this) s =
         Some (filter (\<lambda>n. (\<exists>c. map_of (configs this) n = Some c \<and> \<not> isEmpty c) \<or>
                            n \<in> set objectPrototype) members) \<and>
       (name \<in> set (filter (\<lambda>n. (\<exists>c. map_of (configs this) n = Some c \<and> \<not> isEmpty c) \<or>
                                 n \<in> set objectPrototype) members) \<longleftrightarrow>
        name \<in> set members \<and> name \<in> set objectPrototype)) \<and>
    (\<forall>res. CloudFormationInit_bind ro this = Inr res \<longrightarrow>
       (name \<noteq> ''configSets'' \<longrightarrow> ownProperty (configData res) name = JUndef))"
proof -
  note assms = assms(1)[unfolded uniqueNames_def, THEN conjunct1]
    assms(1)[unfolded uniqueNames_def, THEN conjunct2] assms(2,3)
  have n: "map_of (nonEmptyConfigs this) name = None"
    using map_of_nonEmptyConfigs[OF assms(1), of name] assms(3,4) by simp
  then have a: "name \<notin> fst ` set (nonEmptyConfigs this)"
    by (simp add: map_of_eq_None_iff)
  have b: "\<forall>bound. configNameToBindResult ro this = Inr bound \<longrightarrow> name \<notin> fst ` set (renderedConfigs bound)"
  proof (intro allI impI)
    fix bound assume bd: "configNameToBindResult ro this = Inr bound"
    have "map_of bound name = None"
      using map_of_configNameToBindResult[OF assms(1) bd, of name] n by simp
    then have "map_of (renderedConfigs bound) name = None"
      using map_of_renderedConfigs[OF assms(1) bd, of name] by simp
    then show "name \<notin> fst ` set (renderedConfigs bound)" by (simp add: map_of_eq_None_iff)
  qed
  have c: "\<forall>s members. s \<noteq> ''__proto__'' \<and> map_of (configSets this) s = Some members \<longrightarrow>
       map_of (renderedConfigSets this) s =
         Some (filter (\<lambda>n. (\<exists>c. map_of (configs this) n = Some c \<and> \<not> isEmpty c) \<or>
                            n \<in> set objectPrototype) members) \<and>
       (name \<in> set (filter (\<lambda>n. (\<exists>c. map_of (configs this) n = Some c \<and> \<not> isEmpty c) \<or>
                                 n \<in> set objectPrototype) members) \<longleftrightarrow>
        name \<in> set members \<and> name \<in> set objectPrototype)"
    using assms(3,4) by (auto simp: map_of_renderedConfigSets[OF assms(1,2)])
  have d: "\<forall>res. CloudFormationInit_bind ro this = Inr res \<longrightarrow>
       (name \<noteq> ''configSets'' \<longrightarrow> ownProperty (configData res) name = JUndef)"
  proof (intro allI impI)
    fix res assume r: "CloudFormationInit_bind ro this = Inr res" and "name \<noteq> ''configSets''"
    then show "ownProperty (configData res) name = JUndef"
      using configData_lookup[OF assms(1) r, of name] n by (simp add: ownProperty_entries)
  qed
  from a b c d show ?thesis by (intro conjI)
qed

text \<open>
  C5 fails for a config whose name is the name of a member of \<^verbatim>\<open>Object.prototype\<close>.  The
  registry \<open>inheritedNameInit\<close> has the non-empty config \<^verbatim>\<open>A\<close>, the empty config
  \<^verbatim>\<open>toString\<close>, and the config set \<^verbatim>\<open>default\<close> with the members \<^verbatim>\<open>A\<close> and \<^verbatim>\<open>toString\<close>.  The
  rendered document has no entry for the empty config, but its name stays in the
  rendered member list of \<^verbatim>\<open>default\<close>: the filter reads \<^verbatim>\<open>nonEmptyConfigs['toString']\<close>,
  which is the inherited function and not \<^verbatim>\<open>undefined\<close>.
\<close>

theorem empty_config_kept_in_member_list:
  "map_of (configs inheritedNameInit) ''toString'' = Some [] \<and>
   isEmpty ([] :: (unit, unit) InitConfig) \<and>
   map_of (nonEmptyConfigs inheritedNameInit) ''toString'' = None \<and>
   CloudFormationInit_bind exampleOptions inheritedNameInit =
     Inr \<lparr>configData =
            JObj [(''configSets'', JObj [(''default'', JArr [JStr ''A'', JStr ''toString''] [])]),
                  (''A'', JObj [(''packages'', JObj [(''yum'', JObj [(''httpd'', JArr [] [])])]),
                                (''groups'', JUndef), (''users'', JUndef), (''sources'', JUndef),
                                (''files'', JUndef), (''commands'', JUndef),
                                (''services'', JUndef)])],
          authData = JUndef\<rparr>"
  by (simp add: CloudFormationInit_bind_def configNameToBindResult_def mapValuesThrowing_def
        nonEmptyConfigs_def mapValues_def isEmpty_def inheritedNameInit_def fromConfigSets_def
        objectAssign_def objectSpread_def renderedConfigSets_def renderedConfigs_def namesObject_def
        defined_def found_def
        InitConfig_bind_def snd_andThen bindForType_def bindElement_def
        exampleElement_def deepMerge_def coalesce_def arrayFromSet_def setAdd_def
        fromPrototype_def objectPrototype_def assign_def
        optConfig_def optAuthentication_def)

lemma overwritingInit_bound:
  "\<exists>res. CloudFormationInit_bind exampleOptions overwritingInit = Inr res"
  by (simp add: CloudFormationInit_bind_def configNameToBindResult_def mapValuesThrowing_def
        nonEmptyConfigs_def mapValues_def isEmpty_def overwritingInit_def
        InitConfig_bind_def snd_andThen bindForType_def bindElement_def
        exampleElement_def deepMerge_def coalesce_def arrayFromSet_def setAdd_def
        fromPrototype_def objectPrototype_def assign_def
        optConfig_def optAuthentication_def)

lemma ownProperty_absent:
  "isObject v \<Longrightarrow> k \<notin> fst ` set (entries v) \<Longrightarrow> ownProperty v k = JUndef"
  by (cases v) (auto simp: map_of_eq_None_iff[symmetric] split: option.splits)

text \<open>
  C10.  When (in a registry that has every name once) a non-empty config is registered
  under the name \<^verbatim>\<open>configSets\<close>, the property
  \<^verbatim>\<open>configSets\<close> of the rendered document is the fragment of that config (the config
  entries are spread after the key \<^verbatim>\<open>configSets\<close>): its keys are the seven plural names,
  and it has no property of its own, so no member list, under any other name.
\<close>

theorem configSets_slot_overwritten:
  assumes "uniqueNames this"
    and "map_of (configs this) ''configSets'' = Some c" "\<not> isEmpty c"
    and "CloudFormationInit_bind ro this = Inr res"
  shows "\<exists>r. snd (InitConfig_bind ro c) = Inr r \<and>
             jget (configData res) ''configSets'' = config r \<and>
             map fst (entries (jget (configData res) ''configSets'')) = map pluralName kindsInOrder \<and>
             (\<forall>s. s \<notin> set (map pluralName kindsInOrder) \<longrightarrow>
                  ownProperty (jget (configData res) ''configSets'') s = JUndef)"
proof -
  note assms = assms(1)[unfolded uniqueNames_def, THEN conjunct1] assms(2,3,4)
  have ne: "map_of (nonEmptyConfigs this) ''configSets'' = Some c"
    using assms(2,3) by (simp add: map_of_nonEmptyConfigs[OF assms(1)])
  from nonEmpty_config_bound[OF assms(1,4) ne] obtain r0
    where r: "snd (InitConfig_bind ro c) = Inr r0" by blast
  have "isObject (configData res) \<and> map_of (entries (configData res)) ''configSets'' = Some (config r0)"
    using configData_lookup[OF assms(1,4), of "''configSets''"] ne r by simp
  then have v: "jget (configData res) ''configSets'' = config r0"
    using jget_entries by blast
  have k: "map fst (entries (config r0)) = map pluralName kindsInOrder"
    by (rule InitConfig_bind_keys[OF r])
  have o: "isObject (config r0)" using InitConfig_bind_Inr[OF r] by auto
  have "\<forall>s. s \<notin> set (map pluralName kindsInOrder) \<longrightarrow> ownProperty (config r0) s = JUndef"
    using ownProperty_absent[OF o] k by (metis set_map)
  with r v k show ?thesis by (intro exI[of _ r0]) simp
qed

theorem configSets_slot_overwritten_witness:
  "\<exists>res. CloudFormationInit_bind exampleOptions overwritingInit = Inr res \<and>
         map_of (configSets overwritingInit) ''default'' = Some [''configSets''] \<and>
         ownProperty (jget (configData res) ''configSets'') ''default'' = JUndef \<and>
         map fst (entries (jget (configData res) ''configSets'')) =
           [''packages'', ''groups'', ''users'', ''sources'', ''files'', ''commands'', ''services'']"
proof -
  obtain res where r: "CloudFormationInit_bind exampleOptions overwritingInit = Inr res"
    using overwritingInit_bound by blast
  have d: "uniqueNames overwritingInit"
    and c: "map_of (configs overwritingInit) ''configSets'' =
              Some [exampleElement PACKAGE ''yum'' (JObj [(''httpd'', JArr [] [])])]"
      "\<not> isEmpty [exampleElement PACKAGE ''yum'' (JObj [(''httpd'', JArr [] [])])]"
    by (simp_all add: overwritingInit_def isEmpty_def uniqueNames_def)
  from configSets_slot_overwritten[OF d c r]
  obtain r0 where p: "snd (InitConfig_bind exampleOptions
                        [exampleElement PACKAGE ''yum'' (JObj [(''httpd'', JArr [] [])])]) = Inr r0 \<and>
             jget (configData res) ''configSets'' = config r0 \<and>
             map fst (entries (jget (configData res) ''configSets'')) = map pluralName kindsInOrder \<and>
             (\<forall>s. s \<notin> set (map pluralName kindsInOrder) \<longrightarrow>
                  ownProperty (jget (configData res) ''configSets'') s = JUndef)" ..
  from p have k: "map fst (entries (jget (configData res) ''configSets'')) = map pluralName kindsInOrder"
    by (elim conjE)
  from p have "\<forall>s. s \<notin> set (map pluralName kindsInOrder) \<longrightarrow>
                  ownProperty (jget (configData res) ''configSets'') s = JUndef"
    by (elim conjE)
  then have "''default'' \<notin> set (map pluralName kindsInOrder) \<longrightarrow>
                  ownProperty (jget (configData res) ''configSets'') ''default'' = JUndef"
    by (rule spec)
  then have u: "ownProperty (jget (configData res) ''configSets'') ''default'' = JUndef"
    by (simp add: pluralName_def kindsInOrder_def)
  have "map pluralName kindsInOrder =
           [''packages'', ''groups'', ''users'', ''sources'', ''files'', ''commands'', ''services'']"
    by (simp add: pluralName_def kindsInOrder_def)
  with k have k': "map fst (entries (jget (configData res) ''configSets'')) =
           [''packages'', ''groups'', ''users'', ''sources'', ''files'', ''commands'', ''services'']"
    by (rule trans)
  have m: "map_of (configSets overwritingInit) ''default'' = Some [''configSets'']"
    by (simp add: overwritingInit_def)
  show ?thesis
    by (intro exI[of _ res] conjI) (fact r, fact m, fact u, fact k')
qed

subsection \<open>The fingerprint\<close>

lemma CloudFormationInit_attach_Inr:
  assumes "CloudFormationInit_attach env res opts this = Inr eff"
  shows "\<exists>b. CloudFormationInit_bind
               \<lparr>instanceRole = instanceRole opts, platform = platform opts, scope = stack res\<rparr> this = Inr b \<and>
             fingerprint eff = take 16 (sha256_hexdigest env (JSON_stringify env (configData b)))"
  using assms
  by (auto simp: CloudFormationInit_attach_def Let_def substr0_def contentHash_def split: sum.splits)

text \<open>
  The fingerprint is the first 16 characters of the hash of the serialized config data;
  with a hash that returns 64 hexadecimal digits it is 16 hexadecimal digits long.
\<close>

lemma fingerprint_hex:
  assumes "\<forall>s. length (sha256_hexdigest env s) = 64 \<and>
               set (sha256_hexdigest env s) \<subseteq> set ''0123456789abcdef''"
    and "CloudFormationInit_attach env res opts this = Inr eff"
  shows "length (fingerprint eff) = 16 \<and> set (fingerprint eff) \<subseteq> set ''0123456789abcdef''"
proof -
  from CloudFormationInit_attach_Inr[OF assms(2)]
  obtain b :: bind_result
    where b: "fingerprint eff = take 16 (sha256_hexdigest env (JSON_stringify env (configData b)))"
    by (elim exE conjE)
  have len: "length (fingerprint eff) = 16" using assms(1) b by simp
  have "set (fingerprint eff) \<subseteq> set (sha256_hexdigest env (JSON_stringify env (configData b)))"
    unfolding b by (rule set_take_subset)
  with assms(1) have "set (fingerprint eff) \<subseteq> set ''0123456789abcdef''" by blast
  with len show ?thesis by simp
qed

text \<open>
  With elements that build their fragments anew at every call, which is what the
  embedding on values describes, the document rendered for a config of two package
  elements with the fragments \<^verbatim>\<open>{ yum: [{ name: 'httpd' }] }\<close> and \<^verbatim>\<open>{ yum: [{ name: 'git' }] }\<close>
  has the two members under \<^verbatim>\<open>yum\<close>, at every attachment.
\<close>

lemma document_of_new_fragments:
  "CloudFormationInit_bind exampleOptions
     (fromElements
        [exampleElement PACKAGE ''yum'' (JArr [JObj [(''name'', JStr ''httpd'')]] []),
         exampleElement PACKAGE ''yum'' (JArr [JObj [(''name'', JStr ''git'')]] [])]) =
     Inr \<lparr>configData =
            keptDocument [JObj [(''name'', JStr ''httpd'')], JObj [(''name'', JStr ''git'')]],
          authData = JUndef\<rparr>"
  by (simp add: CloudFormationInit_bind_def configNameToBindResult_def mapValuesThrowing_def
        nonEmptyConfigs_def mapValues_def isEmpty_def fromElements_def fromConfig_def
        fromConfigSets_def InitConfig_new_def add_def keptDocument_def
        objectAssign_def objectSpread_def renderedConfigSets_def renderedConfigs_def namesObject_def
        defined_def found_def
        InitConfig_bind_def snd_andThen bindForType_def bindElement_def
        exampleElement_def deepMerge_def coalesce_def arrayFromSet_def setAdd_def
        fromPrototype_def objectPrototype_def assign_def
        optConfig_def optAuthentication_def upt_rec)

text \<open>
  C9 fails when an element returns, at every call of \<^verbatim>\<open>_bind\<close>, the fragment it keeps.
  The registry \<open>keepingInit\<close> has one config with two package elements: the first returns
  the fragment at address 0 of the store, the second builds its fragment anew.  It is
  attached twice, with nothing done to it in between, whatever the hash and the
  serialization are.  The first attachment merges the second fragment into the kept
  one, whose array under \<^verbatim>\<open>yum\<close> then has two members; the second attachment merges a
  new second fragment into it, and the array has three members (a \<^verbatim>\<open>Set\<close> compares
  objects by reference).  So the two attachments serialize, and hash, different
  documents.
\<close>

theorem fingerprint_changes_on_second_attachment:
  "map_option snd (attachTwice env 5 exampleResource exampleAttachOptions keepingInit keptFragment) =
     Some (Inr ((take 16 (sha256_hexdigest env (JSON_stringify env
                   (keptDocument [JObj [(''name'', JStr ''httpd'')], JObj [(''name'', JStr ''git'')]]))),
                 keptDocument [JObj [(''name'', JStr ''httpd'')], JObj [(''name'', JStr ''git'')]]),
                (take 16 (sha256_hexdigest env (JSON_stringify env
                   (keptDocument [JObj [(''name'', JStr ''httpd'')], JObj [(''name'', JStr ''git'')],
                                  JObj [(''name'', JStr ''git'')]]))),
                 keptDocument [JObj [(''name'', JStr ''httpd'')], JObj [(''name'', JStr ''git'')],
                               JObj [(''name'', JStr ''git'')]]))) \<and>
   keptDocument [JObj [(''name'', JStr ''httpd'')], JObj [(''name'', JStr ''git'')]] \<noteq>
   keptDocument [JObj [(''name'', JStr ''httpd'')], JObj [(''name'', JStr ''git'')],
                 JObj [(''name'', JStr ''git'')]]"
  by (simp add: attachTwice_def keptDocument_def
        CloudFormationInit_attachInPlace_def CloudFormationInit_bindInPlace_def
        InitConfig_bindInPlace_def bindForTypeInPlace_def thenInPlace_def returnInPlace_def
        keepingInit_def keepingElement_def buildingElement_def keptFragment_def
        mapValues_def assign_def found_def objectSpread_def allocNames_def alloc_def definedS_def
        deepMergeInPlace_def orEmptyObject_def optStoredConfig_def optStoredAuthentication_def
        cellOf_def isArrayS_def isObjectS_def sget_def sset_def spreadS_def entriesS_def
        setAddS_def arrayFromSetS_def fromPrototypeS_def objectPrototype_def
        exampleAttachOptions_def exampleResource_def substr0_def contentHash_def withIndex_def
        upt_rec nth_append eval_nat_numeral Let_def)

subsection \<open>The merge engine\<close>

lemma deepMerge_nested:
  "deepMerge (coalesce v (JObj [])) (JObj kvs) = mergeEntries (coalesce v (JObj [])) kvs"
  by (cases v) (simp_all add: deepMerge_def coalesce_def)

lemma mergeEntries_Cons:
  "mergeEntries target ((key, v) # rest) =
     (case mergeEntries target [(key, v)] of Inl e \<Rightarrow> Inl e | Inr t' \<Rightarrow> mergeEntries t' rest)"
  by (cases v) (auto split: sum.splits)

lemma mergeEntries_append:
  "mergeEntries target (xs @ ys) =
     (case mergeEntries target xs of Inl e \<Rightarrow> Inl e | Inr t' \<Rightarrow> mergeEntries t' ys)"
proof (induction xs arbitrary: target)
  case Nil
  then show ?case by simp
next
  case (Cons x xs)
  obtain key v where x: "x = (key, v)" by (cases x)
  show ?case
    unfolding x append_Cons
    by (subst mergeEntries_Cons, subst (2) mergeEntries_Cons) (simp add: Cons.IH split: sum.splits)
qed

lemma mergeEntries_single_obj:
  "mergeEntries (JObj t) [(key, v)] = Inr r \<Longrightarrow>
   r = JObj t \<or> (\<exists>w. r = JObj (AList.update key w t))"
  by (cases v) (auto simp: assign_def split: sum.splits if_splits)

lemma mergeEntries_obj:
  "mergeEntries (JObj t) kvs = Inr r \<Longrightarrow> \<exists>t'. r = JObj t'"
proof (induction kvs arbitrary: t)
  case Nil
  then show ?case by auto
next
  case (Cons x xs)
  obtain key v where x: "x = (key, v)" by (cases x)
  from Cons.prems obtain r1 where r1: "mergeEntries (JObj t) [(key, v)] = Inr r1"
    "mergeEntries r1 xs = Inr r"
    unfolding x by (subst (asm) mergeEntries_Cons) (auto split: sum.splits)
  from mergeEntries_single_obj[OF r1(1)] obtain t1 where "r1 = JObj t1" by auto
  with r1(2) Cons.IH show ?case by blast
qed

lemma mergeEntries_frame:
  "k \<notin> fst ` set kvs \<Longrightarrow> mergeEntries (JObj t) kvs = Inr r \<Longrightarrow> jget r k = jget (JObj t) k"
proof (induction kvs arbitrary: t)
  case Nil
  then show ?case by simp
next
  case (Cons x xs)
  obtain key v where x: "x = (key, v)" by (cases x)
  from Cons.prems(2) obtain r1 where r1: "mergeEntries (JObj t) [(key, v)] = Inr r1"
    "mergeEntries r1 xs = Inr r"
    unfolding x by (subst (asm) mergeEntries_Cons) (auto split: sum.splits)
  from Cons.prems(1) x have ne: "k \<noteq> key" and nk: "k \<notin> fst ` set xs" by auto
  from mergeEntries_single_obj[OF r1(1)] ne obtain t1 where t1: "r1 = JObj t1"
    "jget (JObj t1) k = jget (JObj t) k"
    by (auto simp: update_conv')
  from Cons.IH[OF nk r1(2)[unfolded t1(1)]] t1(2) show ?case by simp
qed

lemma map_of_first_occurrence:
  "map_of xs k = Some v \<Longrightarrow> \<exists>pre post. xs = pre @ (k, v) # post \<and> k \<notin> fst ` set pre"
proof (induction xs)
  case Nil
  then show ?case by simp
next
  case (Cons x xs)
  show ?case
  proof (cases "fst x = k")
    case True
    with Cons.prems have "x = (k, v)" by (cases x) auto
    then show ?thesis by (intro exI[of _ "[]"] exI[of _ xs]) simp
  next
    case False
    with Cons.prems have "map_of xs k = Some v" by (cases x) auto
    from Cons.IH[OF this] obtain pre post where "xs = pre @ (k, v) # post" "k \<notin> fst ` set pre"
      by blast
    with False show ?thesis by (intro exI[of _ "x # pre"] exI[of _ post]) simp
  qed
qed

text \<open>
  C2, as the code has it.  When the value of the target at \<open>k\<close> is truthy and not an
  array, and the source has an array at \<open>k\<close>, \<^verbatim>\<open>deepMerge\<close> throws.  The exception is the
  merge error for \<open>k\<close> (it carries the array and the value of the target), unless the
  merge of a property of the source before \<open>k\<close> has thrown already.
\<close>

theorem merge_array_into_non_array:
  assumes "truthy (jget (JObj t) k)" "\<not> isArray (jget (JObj t) k)"
    and "map_of src k = Some (JArr vs ps)"
  shows "(\<exists>e. deepMerge (JObj t) (JObj src) = Inl e) \<and>
         (\<exists>pre post. src = pre @ (k, JArr vs ps) # post \<and> k \<notin> fst ` set pre \<and>
            (case mergeEntries (JObj t) pre of
               Inl e \<Rightarrow> deepMerge (JObj t) (JObj src) = Inl e
             | Inr t' \<Rightarrow> deepMerge (JObj t) (JObj src) = Inl (MergeError (JArr vs ps) (jget (JObj t) k))))"
proof -
  from map_of_first_occurrence[OF assms(3)] obtain pre post
    where s: "src = pre @ (k, JArr vs ps) # post" "k \<notin> fst ` set pre" by blast
  have c: "case mergeEntries (JObj t) pre of
               Inl e \<Rightarrow> deepMerge (JObj t) (JObj src) = Inl e
             | Inr t' \<Rightarrow> deepMerge (JObj t) (JObj src) = Inl (MergeError (JArr vs ps) (jget (JObj t) k))"
  proof (cases "mergeEntries (JObj t) pre")
    case (Inl e)
    then show ?thesis by (simp add: deepMerge_def s(1) mergeEntries_append)
  next
    case (Inr t')
    from mergeEntries_frame[OF s(2) Inr] have "jget t' k = jget (JObj t) k" .
    with assms(1,2) Inr show ?thesis by (simp add: deepMerge_def s(1) mergeEntries_append)
  qed
  then have "\<exists>e. deepMerge (JObj t) (JObj src) = Inl e"
    by (cases "mergeEntries (JObj t) pre") auto
  with s c show ?thesis by blast
qed

theorem merge_array_into_non_array_witness:
  "truthy (jget (JObj [(''k'', JStr ''x'')]) ''k'') \<and>
   \<not> isArray (jget (JObj [(''k'', JStr ''x'')]) ''k'') \<and>
   (\<exists>e. deepMerge (JObj [(''k'', JStr ''x'')]) (JObj [(''j'', JNum 1), (''k'', JArr [JNum 1] [])]) = Inl e)"
proof -
  have a: "truthy (jget (JObj [(''k'', JStr ''x'')]) ''k'')"
    and b: "\<not> isArray (jget (JObj [(''k'', JStr ''x'')]) ''k'')"
    and c: "map_of [(''j'', JNum 1), (''k'', JArr [JNum 1] [])] ''k'' = Some (JArr [JNum 1] [])"
    by simp_all
  from merge_array_into_non_array[OF a b c]
  have "\<exists>e. deepMerge (JObj [(''k'', JStr ''x'')]) (JObj [(''j'', JNum 1), (''k'', JArr [JNum 1] [])]) = Inl e"
    by (rule conjunct1)
  with a b show ?thesis by (intro conjI)
qed

theorem merge_array_into_non_array_counterexample:
  "deepMerge (JObj [(''k'', JNull)]) (JObj [(''k'', JArr [JNum 1] [])]) = Inr (JObj [(''k'', JArr [JNum 1] [])]) \<and>
   deepMerge (JObj [(''k'', JStr [])]) (JObj [(''k'', JArr [JNum 1] [])]) = Inr (JObj [(''k'', JArr [JNum 1] [])])"
  by (simp add: deepMerge_def coalesce_def arrayFromSet_def setAdd_def assign_def)

text \<open>
  A value of the target that is \<^verbatim>\<open>null\<close> or \<^verbatim>\<open>undefined\<close> counts as no value: the array of
  the source is stored (without its duplicates) and the merge goes on.
\<close>

lemma merge_array_over_nullish:
  assumes "nullish (jget (JObj t) k)"
  shows "mergeEntries (JObj t) ((k, JArr vs ps) # rest) =
           mergeEntries (JObj (AList.update k (JArr (arrayFromSet vs) []) t)) rest"
proof (cases "map_of t k")
  case None
  with assms have "k \<noteq> ''__proto__''"
    by (auto simp: fromPrototype_def objectPrototype_def split: if_splits)
  with assms show ?thesis
    by (cases "jget (JObj t) k") (simp_all add: coalesce_def assign_def del: jget.simps)
next
  case (Some v)
  with assms show ?thesis
    by (cases "jget (JObj t) k") (simp_all add: coalesce_def assign_def)
qed

lemma set_foldl_setAdd: "set (foldl setAdd acc xs) = set acc \<union> set xs"
  by (induction xs arbitrary: acc) (auto simp: setAdd_def)

lemma set_arrayFromSet: "set (arrayFromSet xs) = set xs"
  by (simp add: arrayFromSet_def set_foldl_setAdd)

lemma distinct_primitives_foldl_setAdd:
  "distinct (filter isPrimitive acc) \<Longrightarrow> distinct (filter isPrimitive (foldl setAdd acc xs))"
  by (induction xs arbitrary: acc) (auto simp: setAdd_def)

lemma distinct_primitives_arrayFromSet: "distinct (filter isPrimitive (arrayFromSet xs))"
  by (simp add: arrayFromSet_def distinct_primitives_foldl_setAdd)

lemma distinct_arrayFromSet:
  assumes "\<forall>x\<in>set xs. isPrimitive x"
  shows "distinct (arrayFromSet xs)"
proof -
  have "filter isPrimitive (arrayFromSet xs) = arrayFromSet xs"
    by (rule filter_True) (use assms in \<open>simp add: set_arrayFromSet\<close>)
  with distinct_primitives_arrayFromSet[of xs] show ?thesis by simp
qed

text \<open>
  C4, as the code has it.  When the target has an array at \<open>k\<close>, the source has an array
  at \<open>k\<close>, and \<^verbatim>\<open>deepMerge\<close> returns, the value at \<open>k\<close> is the array of the set built from
  the elements of the target followed by those of the source: it has the elements of
  both, and no primitive element (a string, a number, a boolean, null) twice.  Arrays
  and objects among the elements are compared by reference, so all of them are kept.
\<close>

theorem merge_arrays_as_sets:
  assumes "deepMerge (JObj t) (JObj s) = Inr r" "distinct (map fst s)"
    and "jget (JObj t) k = JArr a pa" "map_of s k = Some (JArr b pb)"
  shows "jget r k = JArr (arrayFromSet (a @ b)) [] \<and>
         set (arrayFromSet (a @ b)) = set a \<union> set b \<and>
         distinct (filter isPrimitive (arrayFromSet (a @ b))) \<and>
         ((\<forall>x\<in>set a \<union> set b. isPrimitive x) \<longrightarrow> distinct (arrayFromSet (a @ b)))"
proof -
  from map_of_first_occurrence[OF assms(4)] obtain pre post
    where s: "s = pre @ (k, JArr b pb) # post" "k \<notin> fst ` set pre" by blast
  from assms(2) have kp: "k \<notin> fst ` set post" unfolding s(1) by auto
  from assms(1) have m: "mergeEntries (JObj t) s = Inr r" by (simp add: deepMerge_def)
  then obtain t1 where t1: "mergeEntries (JObj t) pre = Inr t1"
    "mergeEntries t1 ((k, JArr b pb) # post) = Inr r"
    unfolding s(1) mergeEntries_append by (auto split: sum.splits)
  from mergeEntries_obj[OF t1(1)] obtain o1 where o1: "t1 = JObj o1" by blast
  from mergeEntries_frame[OF s(2) t1(1)] assms(3) have g: "jget (JObj o1) k = JArr a pa"
    by (simp add: o1)
  from g have own: "map_of o1 k \<noteq> None"
    by (auto simp: fromPrototype_def split: option.splits if_splits)
  then have u: "assign k (JArr (arrayFromSet (a @ b)) []) o1 =
                AList.update k (JArr (arrayFromSet (a @ b)) []) o1"
    by (auto simp: assign_def)
  from t1(2) g have "mergeEntries (JObj (assign k (JArr (arrayFromSet (a @ b)) []) o1)) post = Inr r"
    unfolding o1 by (simp add: coalesce_def del: jget.simps)
  then have "mergeEntries (JObj (AList.update k (JArr (arrayFromSet (a @ b)) []) o1)) post = Inr r"
    unfolding u .
  from mergeEntries_frame[OF kp this] have "jget r k = JArr (arrayFromSet (a @ b)) []"
    by (simp add: update_conv')
  then show ?thesis
    by (simp add: set_arrayFromSet distinct_primitives_arrayFromSet distinct_arrayFromSet)
qed

lemma example_arrays_merged:
  "\<exists>r. deepMerge (JObj [(''k'', JArr [JStr ''a'', JStr ''b''] [])])
               (JObj [(''k'', JArr [JStr ''b'', JStr ''c''] [])]) = Inr r"
  by (simp add: deepMerge_def coalesce_def assign_def)

theorem merge_arrays_as_sets_witness:
  "\<exists>r. deepMerge (JObj [(''k'', JArr [JStr ''a'', JStr ''b''] [])])
               (JObj [(''k'', JArr [JStr ''b'', JStr ''c''] [])]) = Inr r \<and>
       jget r ''k'' = JArr [JStr ''a'', JStr ''b'', JStr ''c''] []"
proof -
  obtain r where r: "deepMerge (JObj [(''k'', JArr [JStr ''a'', JStr ''b''] [])])
               (JObj [(''k'', JArr [JStr ''b'', JStr ''c''] [])]) = Inr r"
    using example_arrays_merged by (elim exE)
  have d: "distinct (map fst [(''k'', JArr [JStr ''b'', JStr ''c''] [])])"
    and a: "jget (JObj [(''k'', JArr [JStr ''a'', JStr ''b''] [])]) ''k'' = JArr [JStr ''a'', JStr ''b''] []"
    and b: "map_of [(''k'', JArr [JStr ''b'', JStr ''c''] [])] ''k'' = Some (JArr [JStr ''b'', JStr ''c''] [])"
    by simp_all
  from merge_arrays_as_sets[OF r d a b]
  have "jget r ''k'' = JArr (arrayFromSet ([JStr ''a'', JStr ''b''] @ [JStr ''b'', JStr ''c''])) []"
    by (rule conjunct1)
  also have "arrayFromSet ([JStr ''a'', JStr ''b''] @ [JStr ''b'', JStr ''c'']) =
               [JStr ''a'', JStr ''b'', JStr ''c'']"
    by (simp add: arrayFromSet_def setAdd_def)
  finally have "jget r ''k'' = JArr [JStr ''a'', JStr ''b'', JStr ''c''] []" .
  with r show ?thesis by (intro exI[of _ r] conjI)
qed

theorem merge_arrays_as_sets_counterexample:
  "deepMerge (JObj [(''k'', JArr [JObj []] [])]) (JObj [(''k'', JArr [JObj []] [])]) =
     Inr (JObj [(''k'', JArr [JObj [], JObj []] [])]) \<and>
   \<not> distinct [JObj [], JObj []]"
  by (simp add: deepMerge_def coalesce_def arrayFromSet_def setAdd_def assign_def)

subsection \<open>Merging fragments of one shape\<close>

lemma foldl_setAdd_arrayFromSet: "foldl setAdd acc (arrayFromSet ys) = foldl setAdd acc ys"
proof (induction ys rule: rev_induct)
  case Nil
  then show ?case by (simp add: arrayFromSet_def)
next
  case (snoc z zs)
  have s: "set (foldl setAdd acc zs) = set acc \<union> set zs" by (rule set_foldl_setAdd)
  show ?case
  proof (cases "(isPrimitive z \<or> isInherited z) \<and> z \<in> set zs")
    case True
    then have "arrayFromSet (zs @ [z]) = arrayFromSet zs"
      by (simp add: arrayFromSet_def setAdd_def set_foldl_setAdd)
    moreover have "foldl setAdd acc (zs @ [z]) = foldl setAdd acc zs"
      using True s by (simp add: setAdd_def)
    ultimately show ?thesis using snoc.IH by simp
  next
    case False
    then have "arrayFromSet (zs @ [z]) = arrayFromSet zs @ [z]"
      by (auto simp: arrayFromSet_def setAdd_def set_foldl_setAdd)
    then show ?thesis using snoc.IH by simp
  qed
qed

lemma arrayFromSet_append_right: "arrayFromSet (xs @ arrayFromSet ys) = arrayFromSet (xs @ ys)"
  by (simp add: arrayFromSet_def foldl_setAdd_arrayFromSet[unfolded arrayFromSet_def])

lemma arrayFromSet_append_left: "arrayFromSet (arrayFromSet xs @ ys) = arrayFromSet (xs @ ys)"
  using foldl_setAdd_arrayFromSet[of "[]" xs] by (simp add: arrayFromSet_def)

lemma arrayFromSet_idem: "arrayFromSet (arrayFromSet xs) = arrayFromSet xs"
  using arrayFromSet_append_left[of xs "[]"] by simp

lemma mergeEntries_step:
  assumes "mergeable (jget (JObj t) k) v" "k \<noteq> ''__proto__''"
  shows "mergeEntries (JObj t) ((k, v) # rest) =
           mergeEntries (JObj (AList.update k (mergedValue (jget (JObj t) k) v) t)) rest"
proof (cases v)
  case (JArr vs ps)
  with assms show ?thesis
    by (cases "jget (JObj t) k") (auto simp: coalesce_def assign_def simp del: jget.simps)
next
  case (JObj kvs)
  with assms show ?thesis
    by (auto simp: mergedObject_def assign_def simp del: jget.simps split: sum.splits)
qed (use assms in \<open>simp_all add: assign_def\<close>)

lemma map_of_applyEntries:
  "distinct (map fst kvs) \<Longrightarrow>
   map_of (applyEntries f t kvs) k =
     (case map_of kvs k of None \<Rightarrow> map_of t k | Some v \<Rightarrow> Some (f k v))"
  unfolding applyEntries_def
proof (induction kvs arbitrary: t)
  case Nil
  then show ?case by simp
next
  case (Cons x xs)
  obtain k' v' where x: "x = (k', v')" by (cases x)
  from Cons.prems x have d: "distinct (map fst xs)" and nk: "map_of xs k' = None"
    by (auto simp: map_of_eq_None_iff)
  show ?case
    using Cons.IH[OF d] nk x
    by (auto simp: update_conv' split: option.splits)
qed

lemma fst_applyEntries:
  "distinct (map fst kvs) \<Longrightarrow>
   map fst (applyEntries f t kvs) = map fst t @ filter (\<lambda>k. k \<notin> fst ` set t) (map fst kvs)"
  unfolding applyEntries_def
proof (induction kvs arbitrary: t)
  case Nil
  then show ?case by simp
next
  case (Cons x xs)
  obtain k' v' where x: "x = (k', v')" by (cases x)
  from Cons.prems x have d: "distinct (map fst xs)" and nk: "k' \<notin> set (map fst xs)"
    by auto
  have f: "filter (\<lambda>k. k \<notin> fst ` set (AList.update k' (f k' v') t)) (map fst xs) =
           filter (\<lambda>k. k \<notin> fst ` set t) (map fst xs)"
    by (rule filter_cong) (use nk in \<open>auto simp: dom_update[unfolded dom_map_of_conv_image_fst]\<close>)
  show ?case
    using Cons.IH[OF d, of "AList.update k' (f k' v') t"] x f
    by (auto simp: update_keys image_iff)
qed

lemma jget_update:
  "jget (JObj (AList.update k v t)) k' = (if k' = k then v else jget (JObj t) k')"
  by (simp add: update_conv')

lemma mergeEntries_applyEntries:
  "distinct (map fst kvs) \<Longrightarrow>
   (\<forall>(k, v)\<in>set kvs. k \<noteq> ''__proto__'' \<and> jget (JObj t) k = jget (JObj t0) k \<and>
      mergeable (jget (JObj t0) k) v) \<Longrightarrow>
   mergeEntries (JObj t) kvs =
     Inr (JObj (applyEntries (\<lambda>k. mergedValue (jget (JObj t0) k)) t kvs))"
proof (induction kvs arbitrary: t)
  case Nil
  then show ?case by (simp add: applyEntries_def)
next
  case (Cons x xs)
  obtain k v where x: "x = (k, v)" by (cases x)
  from Cons.prems x have d: "distinct (map fst xs)" and nk: "k \<notin> fst ` set xs"
    and g: "jget (JObj t) k = jget (JObj t0) k" and m: "mergeable (jget (JObj t0) k) v"
    and np: "k \<noteq> ''__proto__''"
    and rest: "\<forall>(k, v)\<in>set xs. k \<noteq> ''__proto__'' \<and> jget (JObj t) k = jget (JObj t0) k \<and>
                 mergeable (jget (JObj t0) k) v"
    by auto
  let ?t1 = "AList.update k (mergedValue (jget (JObj t0) k) v) t"
  have step: "mergeEntries (JObj t) ((k, v) # xs) = mergeEntries (JObj ?t1) xs"
    using mergeEntries_step[of t k v xs] g m np by simp
  have "\<forall>(k', v')\<in>set xs. k' \<noteq> ''__proto__'' \<and> jget (JObj ?t1) k' = jget (JObj t0) k' \<and>
          mergeable (jget (JObj t0) k') v'"
  proof (clarify)
    fix k' v' assume m: "(k', v') \<in> set xs"
    with nk have "k' \<noteq> k" by force
    moreover from rest m have "k' \<noteq> ''__proto__'' \<and> jget (JObj t) k' = jget (JObj t0) k' \<and>
        mergeable (jget (JObj t0) k') v'"
      by blast
    ultimately show "k' \<noteq> ''__proto__'' \<and> jget (JObj ?t1) k' = jget (JObj t0) k' \<and>
        mergeable (jget (JObj t0) k') v'"
      by (simp only: jget_update if_False) simp
  qed
  from Cons.IH[OF d this] step x show ?case by (simp add: applyEntries_def)
qed


lemma fits_obj_iff:
  "fits (JObj us) (JObj kvs) \<longleftrightarrow>
     distinct (map fst kvs) \<and>
     (\<forall>k v. map_of kvs k = Some v \<longrightarrow>
        k \<notin> set objectPrototype \<and> (\<exists>u. map_of us k = Some u \<and> sameKind u v \<and> fits u v))"
proof (cases "distinct (map fst kvs)")
  case True
  then have "\<And>k v. (map_of kvs k = Some v) = ((k, v) \<in> set kvs)" by simp
  then show ?thesis
    using True by (force simp: list_all_iff split: option.splits)
next
  case False
  then show ?thesis by simp
qed

lemma fits_empty: "fits u (JObj [])"
  by (cases u) simp_all

lemma fits_array: "fits u (JArr xs ps)"
  by (cases u) simp_all

lemma fits_scalar: "isScalar v \<Longrightarrow> fits u v"
  by (cases u; cases v) simp_all

lemma fits_entry:
  assumes k: "sameKind u sv" and f: "fits u sv"
    and old: "old = JUndef \<or> (sameKind u old \<and> fits u old)"
    and ih: "\<And>us kvs t. u = JObj us \<Longrightarrow> sv = JObj kvs \<Longrightarrow> fits u (JObj t) \<Longrightarrow>
               mergeEntries (JObj t) kvs = Inr (JObj (mergedEntries t kvs)) \<and>
               fits u (JObj (mergedEntries t kvs))"
  shows "mergeable old sv \<and> sameKind u (mergedValue old sv) \<and> fits u (mergedValue old sv)"
proof (cases sv)
  case (JArr vs ps)
  with k have "isArray u" by (cases u) (auto simp: sameKind_def)
  with old have "old = JUndef \<or> isArray old" by (cases u; cases old) (auto simp: sameKind_def)
  with JArr k show ?thesis by (auto simp: sameKind_def fits_array)
next
  case (JObj kvs)
  with k obtain us where u: "u = JObj us" by (cases u) (auto simp: sameKind_def)
  from old u obtain t where t: "coalesce old (JObj []) = JObj t" "fits u (JObj t)"
    by (cases old) (auto simp: coalesce_def sameKind_def fits_empty simp del: fits.simps)
  from ih[OF u JObj t(2)] t(1) JObj u show ?thesis
    by (simp add: mergedObject_def sameKind_def del: fits.simps)
next
  case JUndef
  with k show ?thesis by (cases u) (auto simp: sameKind_def)
qed (use k in \<open>auto simp: sameKind_def fits_scalar\<close>)

lemma fits_lookup:
  assumes "fits (JObj us) (JObj t)" "k \<notin> set objectPrototype"
  shows "jget (JObj t) k = JUndef \<or>
         (\<exists>u. map_of us k = Some u \<and> sameKind u (jget (JObj t) k) \<and> fits u (jget (JObj t) k))"
  using assms unfolding fits_obj_iff by (cases "map_of t k") (auto simp: fromPrototype_def)

lemma fits_merge:
  "fits (JObj us) (JObj t) \<Longrightarrow> fits (JObj us) (JObj kvs) \<Longrightarrow>
   mergeEntries (JObj t) kvs = Inr (JObj (mergedEntries t kvs)) \<and>
   fits (JObj us) (JObj (mergedEntries t kvs))"
proof (induction "JObj us" "JObj kvs" arbitrary: us kvs t rule: fits.induct)
  case (1 us kvs)
  have d: "distinct (map fst kvs)" and dt: "distinct (map fst t)"
    using "1.prems" by (simp_all add: fits_obj_iff)
  have entry: "mergeable (jget (JObj t) k) sv \<and> k \<notin> set objectPrototype \<and>
               (\<exists>u. map_of us k = Some u \<and> sameKind u (mergedValue (jget (JObj t) k) sv) \<and>
                    fits u (mergedValue (jget (JObj t) k) sv))"
    if m: "map_of kvs k = Some sv" for k sv
  proof -
    from "1.prems"(2) m obtain u where u: "map_of us k = Some u" "sameKind u sv" "fits u sv"
      and ok: "k \<notin> set objectPrototype"
      unfolding fits_obj_iff by blast
    from m have mem: "(k, sv) \<in> set kvs" by (rule map_of_SomeD)
    have old: "jget (JObj t) k = JUndef \<or> (sameKind u (jget (JObj t) k) \<and> fits u (jget (JObj t) k))"
      using fits_lookup[OF "1.prems"(1) ok] u(1) by auto
    have "mergeable (jget (JObj t) k) sv \<and> sameKind u (mergedValue (jget (JObj t) k) sv) \<and>
          fits u (mergedValue (jget (JObj t) k) sv)"
    proof (rule fits_entry[OF u(2,3) old])
      fix us' kvs' t'
      assume e: "u = JObj us'" "sv = JObj kvs'" "fits u (JObj t')"
      show "mergeEntries (JObj t') kvs' = Inr (JObj (mergedEntries t' kvs')) \<and>
            fits u (JObj (mergedEntries t' kvs'))"
        using "1.hyps"[OF mem[unfolded e(2)] refl u(1)[unfolded e(1)] e(3)[unfolded e(1)]
            u(3)[unfolded e]]
        by (simp only: e)
    qed
    with u(1) ok show ?thesis by blast
  qed
  have ok: "\<forall>(k, v)\<in>set kvs. k \<noteq> ''__proto__'' \<and> jget (JObj t) k = jget (JObj t) k \<and>
              mergeable (jget (JObj t) k) v"
    using entry d proto_inherited by auto
  have res: "mergeEntries (JObj t) kvs = Inr (JObj (mergedEntries t kvs))"
    unfolding mergedEntries_def by (rule mergeEntries_applyEntries[OF d ok])
  have dk: "distinct (map fst (mergedEntries t kvs))"
    using d dt by (auto simp: mergedEntries_def fst_applyEntries)
  have "k \<notin> set objectPrototype \<and> (\<exists>u. map_of us k = Some u \<and> sameKind u v \<and> fits u v)"
    if l: "map_of (mergedEntries t kvs) k = Some v" for k v
  proof (cases "map_of kvs k")
    case None
    with l have "map_of t k = Some v" by (simp add: mergedEntries_def map_of_applyEntries[OF d])
    with "1.prems"(1) show ?thesis unfolding fits_obj_iff by blast
  next
    case (Some sv)
    with l have "v = mergedValue (jget (JObj t) k) sv"
      by (simp add: mergedEntries_def map_of_applyEntries[OF d])
    with entry[OF Some] show ?thesis by blast
  qed
  with dk have "fits (JObj us) (JObj (mergedEntries t kvs))"
    unfolding fits_obj_iff by blast
  with res show ?case by blast
qed


lemma alist_eqI:
  "distinct (map fst xs) \<Longrightarrow> distinct (map fst ys) \<Longrightarrow> map fst xs = map fst ys \<Longrightarrow>
   (\<And>k. map_of xs k = map_of ys k) \<Longrightarrow> xs = ys"
proof (induction xs arbitrary: ys)
  case Nil
  then show ?case by simp
next
  case (Cons x xs)
  from Cons.prems(3) obtain y ys' where ys: "ys = y # ys'" by (cases ys) auto
  obtain k v where x: "x = (k, v)" by (cases x)
  from Cons.prems(3) ys x obtain w where y: "y = (k, w)" by (cases y) auto
  from Cons.prems(4)[of k] x y ys have vw: "v = w" by simp
  have nk: "k \<notin> fst ` set xs" "k \<notin> fst ` set ys'"
    using Cons.prems(1,2) x y ys by auto
  have "map_of xs k' = map_of ys' k'" for k'
  proof (cases "k' = k")
    case True
    with nk show ?thesis by (simp add: map_of_eq_None_iff[THEN iffD2])
  next
    case False
    with Cons.prems(4)[of k'] x y ys show ?thesis by simp
  qed
  with Cons.IH[of ys'] Cons.prems(1,2,3) ys have "xs = ys'" by simp
  with x y vw ys show ?case by simp
qed

lemma fst_mergedEntries:
  "distinct (map fst kvs) \<Longrightarrow>
   map fst (mergedEntries t kvs) = map fst t @ filter (\<lambda>k. k \<notin> fst ` set t) (map fst kvs)"
  by (simp add: mergedEntries_def fst_applyEntries)

lemma map_of_mergedEntries:
  "distinct (map fst kvs) \<Longrightarrow>
   map_of (mergedEntries t kvs) k =
     (case map_of kvs k of None \<Rightarrow> map_of t k | Some v \<Rightarrow> Some (mergedValue (jget (JObj t) k) v))"
  by (simp add: mergedEntries_def map_of_applyEntries del: jget.simps)

lemma mergedEntries_Nil [simp]: "mergedEntries t [] = t"
  by (simp add: mergedEntries_def applyEntries_def)

lemma mergedValue_object:
  assumes "fits (JObj us) (JObj kvs)" "old = JUndef \<or> (sameKind (JObj us) old \<and> fits (JObj us) old)"
  shows "\<exists>t. coalesce old (JObj []) = JObj t \<and> fits (JObj us) (JObj t) \<and>
             mergedValue old (JObj kvs) = JObj (mergedEntries t kvs) \<and>
             fits (JObj us) (JObj (mergedEntries t kvs))"
proof -
  from assms(2) obtain t where t: "coalesce old (JObj []) = JObj t" "fits (JObj us) (JObj t)"
    by (cases old) (auto simp: coalesce_def sameKind_def fits_empty simp del: fits.simps)
  from fits_merge[OF t(2) assms(1)] t show ?thesis
    by (simp add: mergedObject_def del: fits.simps)
qed

lemma mergedValue_assoc:
  assumes cv: "sameKind u cv" "fits u cv"
    and av: "av = JUndef \<or> (sameKind u av \<and> fits u av)"
    and bv: "bv = JUndef \<or> (sameKind u bv \<and> fits u bv)"
    and ih: "\<And>us' a' b' c'. u = JObj us' \<Longrightarrow> cv = JObj c' \<Longrightarrow> fits u (JObj a') \<Longrightarrow>
               fits u (JObj b') \<Longrightarrow>
               mergedEntries (mergedEntries a' b') c' = mergedEntries a' (mergedEntries b' c')"
  shows "mergedValue (if bv = JUndef then av else mergedValue av bv) cv =
           mergedValue av (mergedValue bv cv)"
proof (cases cv)
  case (JArr cs ps)
  with cv have u: "isArray u" by (cases u) (auto simp: sameKind_def)
  from u av have a: "av = JUndef \<or> isArray av" by (cases u; cases av) (auto simp: sameKind_def)
  from u bv have b: "bv = JUndef \<or> isArray bv" by (cases u; cases bv) (auto simp: sameKind_def)
  from a b JArr show ?thesis
    by (cases av; cases bv)
       (simp_all add: arrayFromSet_append_right arrayFromSet_append_left arrayFromSet_idem)
next
  case (JObj c')
  with cv obtain us' where u: "u = JObj us'" by (cases u) (auto simp: sameKind_def)
  have fc: "fits (JObj us') (JObj c')" using cv(2) u JObj by simp
  from mergedValue_object[OF fc av[unfolded u]] obtain a' where a':
    "coalesce av (JObj []) = JObj a'" "fits (JObj us') (JObj a')"
    "mergedValue av (JObj c') = JObj (mergedEntries a' c')"
    by blast
  show ?thesis
  proof (cases "bv = JUndef")
    case True
    have e: "fits (JObj us') (JObj [])" by (rule fits_empty)
    from fits_merge[OF e fc] have m: "fits (JObj us') (JObj (mergedEntries [] c'))"
      "mergeEntries (JObj []) c' = Inr (JObj (mergedEntries [] c'))" by simp_all
    from mergedValue_object[OF m(1) av[unfolded u]] a'(1)
    have r: "mergedValue av (JObj (mergedEntries [] c')) = JObj (mergedEntries a' (mergedEntries [] c'))"
      by auto
    from ih[OF u JObj a'(2)[folded u] e[folded u]]
    have "mergedEntries a' c' = mergedEntries a' (mergedEntries [] c')" by simp
    with True JObj a'(3) r m(2) show ?thesis
      by (simp add: mergedObject_def coalesce_def)
  next
    case False
    with bv u have bk: "sameKind (JObj us') bv" "fits (JObj us') bv" by auto
    then obtain b' where b': "bv = JObj b'" by (cases bv) (auto simp: sameKind_def)
    from mergedValue_object[OF bk(2)[unfolded b'] av[unfolded u]] a'(1)
    have ab: "mergedValue av (JObj b') = JObj (mergedEntries a' b')"
      "fits (JObj us') (JObj (mergedEntries a' b'))" by auto
    have bb: "JObj b' = JUndef \<or> (sameKind (JObj us') (JObj b') \<and> fits (JObj us') (JObj b'))"
      using bk b' by simp
    from mergedValue_object[OF fc bb]
    have bc: "mergedValue (JObj b') (JObj c') = JObj (mergedEntries b' c')"
      "fits (JObj us') (JObj (mergedEntries b' c'))" by (auto simp: coalesce_def)
    have abk: "JObj (mergedEntries a' b') = JUndef \<or>
        (sameKind (JObj us') (JObj (mergedEntries a' b')) \<and> fits (JObj us') (JObj (mergedEntries a' b')))"
      using ab(2) by (simp add: sameKind_def)
    from mergedValue_object[OF fc abk]
    have l: "mergedValue (JObj (mergedEntries a' b')) (JObj c') =
               JObj (mergedEntries (mergedEntries a' b') c')" by (auto simp: coalesce_def)
    from mergedValue_object[OF bc(2) av[unfolded u]] a'(1)
    have r: "mergedValue av (JObj (mergedEntries b' c')) = JObj (mergedEntries a' (mergedEntries b' c'))"
      by auto
    from ih[OF u JObj a'(2)[folded u] bk(2)[unfolded b', folded u]]
    have "mergedEntries (mergedEntries a' b') c' = mergedEntries a' (mergedEntries b' c')" .
    with False b' JObj ab(1) bc(1) l r show ?thesis by simp
  qed
next
  case JUndef
  with cv show ?thesis by (cases u) (auto simp: sameKind_def)
qed simp_all


lemma jget_mergedEntries:
  assumes "fits (JObj us) (JObj t)" "fits (JObj us) (JObj kvs)" "k \<notin> set objectPrototype"
  shows "jget (JObj (mergedEntries t kvs)) k =
           (if jget (JObj kvs) k = JUndef then jget (JObj t) k
            else mergedValue (jget (JObj t) k) (jget (JObj kvs) k))"
proof -
  have d: "distinct (map fst kvs)" using assms(2) by (simp add: fits_obj_iff)
  show ?thesis
  proof (cases "map_of kvs k")
    case None
    then show ?thesis using assms(3) by (simp add: map_of_mergedEntries[OF d] fromPrototype_def)
  next
    case (Some v)
    with assms(2) obtain u where "sameKind u v" unfolding fits_obj_iff by blast
    then have "v \<noteq> JUndef" by (auto simp: sameKind_def)
    with Some show ?thesis by (simp add: map_of_mergedEntries[OF d])
  qed
qed

lemma mergedEntries_assoc:
  "fits (JObj us) (JObj a) \<Longrightarrow> fits (JObj us) (JObj b) \<Longrightarrow> fits (JObj us) (JObj c) \<Longrightarrow>
   mergedEntries (mergedEntries a b) c = mergedEntries a (mergedEntries b c)"
proof (induction "JObj us" "JObj c" arbitrary: us a b c rule: fits.induct)
  case (1 us c)
  note fa = "1.prems"(1) and fb = "1.prems"(2) and fc = "1.prems"(3)
  have fab: "fits (JObj us) (JObj (mergedEntries a b))" using fits_merge[OF fa fb] by simp
  have fbc: "fits (JObj us) (JObj (mergedEntries b c))" using fits_merge[OF fb fc] by simp
  have fl: "fits (JObj us) (JObj (mergedEntries (mergedEntries a b) c))"
    using fits_merge[OF fab fc] by simp
  have fr: "fits (JObj us) (JObj (mergedEntries a (mergedEntries b c)))"
    using fits_merge[OF fa fbc] by simp
  have da: "distinct (map fst a)" and db: "distinct (map fst b)" and dc: "distinct (map fst c)"
    and dab: "distinct (map fst (mergedEntries a b))"
    and dbc: "distinct (map fst (mergedEntries b c))"
    and dl: "distinct (map fst (mergedEntries (mergedEntries a b) c))"
    and dr: "distinct (map fst (mergedEntries a (mergedEntries b c)))"
    using fa fb fc fab fbc fl fr by (simp_all add: fits_obj_iff)
  have keys: "map fst (mergedEntries (mergedEntries a b) c) = map fst (mergedEntries a (mergedEntries b c))"
  proof -
    have "set (map fst (mergedEntries a b)) = set (map fst a) \<union> set (map fst b)"
      by (auto simp: fst_mergedEntries[OF db])
    then have "fst ` set (mergedEntries a b) = fst ` set a \<union> fst ` set b" by simp
    then show ?thesis
      by (simp add: fst_mergedEntries[OF dc] fst_mergedEntries[OF db] fst_mergedEntries[OF dbc]
            conj_commute)
  qed
  have vals: "map_of (mergedEntries (mergedEntries a b) c) k =
              map_of (mergedEntries a (mergedEntries b c)) k" for k
  proof (cases "map_of c k")
    case None
    then show ?thesis
      by (simp add: map_of_mergedEntries[OF dc] map_of_mergedEntries[OF db]
            map_of_mergedEntries[OF dbc] split: option.splits)
  next
    case (Some cv)
    from fc Some obtain u where u: "map_of us k = Some u" "sameKind u cv" "fits u cv"
      and ok: "k \<notin> set objectPrototype"
      unfolding fits_obj_iff by blast
    from Some have mem: "(k, cv) \<in> set c" by (rule map_of_SomeD)
    have av: "jget (JObj a) k = JUndef \<or> (sameKind u (jget (JObj a) k) \<and> fits u (jget (JObj a) k))"
      using fits_lookup[OF fa ok] u(1) by auto
    have bv: "jget (JObj b) k = JUndef \<or> (sameKind u (jget (JObj b) k) \<and> fits u (jget (JObj b) k))"
      using fits_lookup[OF fb ok] u(1) by auto
    have v: "mergedValue (if jget (JObj b) k = JUndef then jget (JObj a) k
                          else mergedValue (jget (JObj a) k) (jget (JObj b) k)) cv =
             mergedValue (jget (JObj a) k) (mergedValue (jget (JObj b) k) cv)"
    proof (rule mergedValue_assoc[OF u(2,3) av bv])
      fix us' a' b' c'
      assume e: "u = JObj us'" "cv = JObj c'" "fits u (JObj a')" "fits u (JObj b')"
      show "mergedEntries (mergedEntries a' b') c' = mergedEntries a' (mergedEntries b' c')"
        using "1.hyps"[OF mem[unfolded e(2)] refl u(1)[unfolded e(1)] e(3)[unfolded e(1)]
            e(4)[unfolded e(1)] u(3)[unfolded e]] .
    qed
    have l: "map_of (mergedEntries (mergedEntries a b) c) k =
               Some (mergedValue (jget (JObj (mergedEntries a b)) k) cv)"
      using Some by (simp add: map_of_mergedEntries[OF dc] del: jget.simps)
    have r: "map_of (mergedEntries a (mergedEntries b c)) k =
               Some (mergedValue (jget (JObj a) k) (mergedValue (jget (JObj b) k) cv))"
      using Some
      by (simp add: map_of_mergedEntries[OF dbc] map_of_mergedEntries[OF dc] del: jget.simps)
    show ?thesis
      unfolding l r jget_mergedEntries[OF fa fb ok] using v by simp
  qed
  show ?case by (rule alist_eqI[OF dl dr keys vals])
qed


lemma deepMerge_fragments:
  assumes "isObject shape" "fragmentOf shape a" "fragmentOf shape b"
  shows "\<exists>r. deepMerge a b = Inr r \<and> fragmentOf shape r \<and>
             (\<forall>x y. a = JObj x \<and> b = JObj y \<longrightarrow> r = JObj (mergedEntries x y))"
proof -
  from assms(1) obtain us where us: "shape = JObj us" by (cases shape) auto
  show ?thesis
  proof (cases "a = JUndef \<or> b = JUndef")
    case True
    with assms(2,3) show ?thesis
      by (cases a; cases b) (auto simp: deepMerge_def fragmentOf_def simp del: fits.simps)
  next
    case False
    with assms(2,3) obtain x y where xy: "a = JObj x" "b = JObj y"
      "fits (JObj us) (JObj x)" "fits (JObj us) (JObj y)"
      unfolding fragmentOf_def us by (cases a; cases b) auto
    from fits_merge[OF xy(3,4)] xy(1,2) us show ?thesis
      by (simp add: deepMerge_def fragmentOf_def del: fits.simps)
  qed
qed

lemma merge_assoc_fragments:
  assumes "isObject shape" "fragmentOf shape a" "fragmentOf shape b" "fragmentOf shape c"
  shows "mergeLeft a b c = mergeRight a b c \<and> (\<exists>r. mergeLeft a b c = Inr r \<and> fragmentOf shape r)"
proof -
  from assms(1) obtain us where us: "shape = JObj us" by (cases shape) auto
  from deepMerge_fragments[OF assms(1,2,3)] obtain ab where ab: "deepMerge a b = Inr ab"
    "fragmentOf shape ab" "\<forall>x y. a = JObj x \<and> b = JObj y \<longrightarrow> ab = JObj (mergedEntries x y)"
    by blast
  from deepMerge_fragments[OF assms(1,3,4)] obtain bc where bc: "deepMerge b c = Inr bc"
    "fragmentOf shape bc" "\<forall>x y. b = JObj x \<and> c = JObj y \<longrightarrow> bc = JObj (mergedEntries x y)"
    by blast
  from deepMerge_fragments[OF assms(1) ab(2) assms(4)] obtain l where l: "deepMerge ab c = Inr l"
    "fragmentOf shape l" "\<forall>x y. ab = JObj x \<and> c = JObj y \<longrightarrow> l = JObj (mergedEntries x y)"
    by blast
  from deepMerge_fragments[OF assms(1,2) bc(2)] obtain r where r: "deepMerge a bc = Inr r"
    "fragmentOf shape r" "\<forall>x y. a = JObj x \<and> bc = JObj y \<longrightarrow> r = JObj (mergedEntries x y)"
    by blast
  have "l = r"
  proof (cases "a = JUndef \<or> b = JUndef \<or> c = JUndef")
    case True
    then consider "a = JUndef" | "a \<noteq> JUndef" "b = JUndef" | "a \<noteq> JUndef" "b \<noteq> JUndef" "c = JUndef"
      by blast
    then show ?thesis
    proof cases
      case 1
      with ab r have "ab = b" "r = bc" by (simp_all add: deepMerge_def)
      with l bc show ?thesis by simp
    next
      case 2
      with assms(2) have "\<not> nullish a" by (cases a) (auto simp: fragmentOf_def)
      with 2 ab bc have "ab = a" "bc = c" by (simp_all add: deepMerge_def)
      with l r show ?thesis by simp
    next
      case 3
      with assms(3) have "\<not> nullish b" by (cases b) (auto simp: fragmentOf_def)
      with 3 bc have "bc = b" by (simp add: deepMerge_def)
      from 3 assms(2,3) ab(3) have "\<not> nullish ab"
        by (cases a; cases b) (auto simp: fragmentOf_def)
      with 3 l have "l = ab" by (simp add: deepMerge_def)
      with \<open>bc = b\<close> ab r show ?thesis by simp
    qed
  next
    case False
    with assms(2,3,4) obtain x y z where xyz: "a = JObj x" "b = JObj y" "c = JObj z"
      "fits (JObj us) (JObj x)" "fits (JObj us) (JObj y)" "fits (JObj us) (JObj z)"
      unfolding fragmentOf_def us by (cases a; cases b; cases c) auto
    from ab(3) bc(3) xyz have "ab = JObj (mergedEntries x y)" "bc = JObj (mergedEntries y z)"
      by simp_all
    with l(3) r(3) xyz have "l = JObj (mergedEntries (mergedEntries x y) z)"
      "r = JObj (mergedEntries x (mergedEntries y z))" by simp_all
    with mergedEntries_assoc[OF xyz(4,5,6)] show ?thesis by simp
  qed
  with ab bc l r show ?thesis by (simp add: mergeLeft_def mergeRight_def)
qed

lemma reduceMerge_snoc:
  "reduceMerge acc (xs @ [x]) =
     (case reduceMerge acc xs of Inl e \<Rightarrow> Inl e | Inr m \<Rightarrow> deepMerge m x)"
  by (induction xs arbitrary: acc) (auto split: sum.splits)

lemma reduceMerge_fragments:
  assumes "isObject shape" "fragmentOf shape acc" "\<forall>f\<in>set fs. fragmentOf shape f"
  shows "\<exists>r. reduceMerge acc fs = Inr r \<and> fragmentOf shape r"
  using assms(2,3)
proof (induction fs arbitrary: acc)
  case Nil
  then show ?case by simp
next
  case (Cons f fs)
  from Cons.prems(2) have f: "fragmentOf shape f" by simp
  from deepMerge_fragments[OF assms(1) Cons.prems(1) f]
  obtain m where "deepMerge acc f = Inr m" "fragmentOf shape m" by blast
  with Cons.IH[of m] Cons.prems(2) show ?case by simp
qed

lemma reduceMerge_append_fragments:
  assumes "isObject shape" "fragmentOf shape acc"
    and "\<forall>f\<in>set xs. fragmentOf shape f" "\<forall>f\<in>set ys. fragmentOf shape f"
  shows "reduceMerge acc (xs @ ys) =
           (case reduceMerge acc xs of
              Inl e \<Rightarrow> Inl e
            | Inr l \<Rightarrow> (case reduceMerge JUndef ys of Inl e \<Rightarrow> Inl e | Inr r \<Rightarrow> deepMerge l r))"
  using assms(4)
proof (induction ys rule: rev_induct)
  case Nil
  from reduceMerge_fragments[OF assms(1,2,3)] obtain l where l: "reduceMerge acc xs = Inr l"
    "fragmentOf shape l" by blast
  then have "\<not> nullish l \<or> l = JUndef" by (cases l) (auto simp: fragmentOf_def)
  with l show ?case by (auto simp: deepMerge_def)
next
  case (snoc y ys)
  then have ys: "\<forall>f\<in>set ys. fragmentOf shape f" and y: "fragmentOf shape y" by auto
  from reduceMerge_fragments[OF assms(1,2,3)] obtain l where l: "reduceMerge acc xs = Inr l"
    "fragmentOf shape l" by blast
  have u: "fragmentOf shape JUndef" by (simp add: fragmentOf_def)
  from reduceMerge_fragments[OF assms(1) u ys] obtain r where r: "reduceMerge JUndef ys = Inr r"
    "fragmentOf shape r" by blast
  from snoc.IH[OF ys] l r have "reduceMerge acc (xs @ ys) = deepMerge l r" by simp
  then have "reduceMerge acc (xs @ ys @ [y]) = mergeLeft l r y"
    using reduceMerge_snoc[of acc "xs @ ys" y] by (simp add: mergeLeft_def)
  also have "\<dots> = mergeRight l r y"
    using merge_assoc_fragments[OF assms(1) l(2) r(2) y] by simp
  also have "\<dots> = (case reduceMerge JUndef (ys @ [y]) of Inl e \<Rightarrow> Inl e | Inr r \<Rightarrow> deepMerge l r)"
    using r by (simp add: reduceMerge_snoc mergeRight_def)
  finally show ?case using l by simp
qed

text \<open>
  C3, as the code has it.  Absence is a left and a right identity of \<^verbatim>\<open>deepMerge\<close> (for
  the right identity the fragment is an object or \<^verbatim>\<open>undefined\<close>, as its type says, not
  \<^verbatim>\<open>null\<close>), and the fold starts with the first fragment.  For optional fragments of
  one shape (at every path the values are of one kind: array, object or scalar; no
  property is \<^verbatim>\<open>undefined\<close>; no property has the name of a member of
  \<^verbatim>\<open>Object.prototype\<close>) the merge never throws and is associative, so a fold of a list of
  such fragments is the merge of the folds of its two parts.  The counterexample has two
  triples of fragments that differ in the kind of a value, for which the two groupings
  give different results.
\<close>

theorem merge_identity_and_fold:
  "deepMerge JUndef x = Inr x \<and>
   (x \<noteq> JNull \<longrightarrow> deepMerge x JUndef = Inr x) \<and>
   reduceMerge JUndef (x # fs) = reduceMerge x fs \<and>
   (isObject shape \<and> fragmentOf shape a \<and> fragmentOf shape b \<and> fragmentOf shape c \<longrightarrow>
      mergeLeft a b c = mergeRight a b c \<and>
      (\<exists>r. mergeLeft a b c = Inr r \<and> fragmentOf shape r)) \<and>
   (isObject shape \<and> (\<forall>f\<in>set (xs @ ys). fragmentOf shape f) \<longrightarrow>
      (\<exists>l r m. reduceMerge JUndef xs = Inr l \<and> reduceMerge JUndef ys = Inr r \<and>
               deepMerge l r = Inr m \<and> reduceMerge JUndef (xs @ ys) = Inr m))"
proof -
  have i: "deepMerge JUndef x = Inr x" "x \<noteq> JNull \<longrightarrow> deepMerge x JUndef = Inr x"
    "reduceMerge JUndef (x # fs) = reduceMerge x fs"
    by (cases x; simp add: deepMerge_def)+
  have a: "isObject shape \<and> fragmentOf shape a \<and> fragmentOf shape b \<and> fragmentOf shape c \<longrightarrow>
      mergeLeft a b c = mergeRight a b c \<and>
      (\<exists>r. mergeLeft a b c = Inr r \<and> fragmentOf shape r)"
    using merge_assoc_fragments[of shape a b c] by blast
  have f: "isObject shape \<and> (\<forall>f\<in>set (xs @ ys). fragmentOf shape f) \<longrightarrow>
      (\<exists>l r m. reduceMerge JUndef xs = Inr l \<and> reduceMerge JUndef ys = Inr r \<and>
               deepMerge l r = Inr m \<and> reduceMerge JUndef (xs @ ys) = Inr m)"
  proof (intro impI, elim conjE)
    assume s: "isObject shape" and fr: "\<forall>f\<in>set (xs @ ys). fragmentOf shape f"
    then have fx: "\<forall>f\<in>set xs. fragmentOf shape f" and fy: "\<forall>f\<in>set ys. fragmentOf shape f"
      by auto
    have u: "fragmentOf shape JUndef" by (simp add: fragmentOf_def)
    from reduceMerge_fragments[OF s u fx] obtain l where l: "reduceMerge JUndef xs = Inr l" by blast
    from reduceMerge_fragments[OF s u fy] obtain r where r: "reduceMerge JUndef ys = Inr r" by blast
    from reduceMerge_fragments[OF s u fr] obtain m where m: "reduceMerge JUndef (xs @ ys) = Inr m"
      by blast
    from reduceMerge_append_fragments[OF s u fx fy] l r m have "deepMerge l r = Inr m" by simp
    with l r m show "\<exists>l r m. reduceMerge JUndef xs = Inr l \<and> reduceMerge JUndef ys = Inr r \<and>
               deepMerge l r = Inr m \<and> reduceMerge JUndef (xs @ ys) = Inr m" by blast
  qed
  from i a f show ?thesis by (intro conjI)
qed

lemma exampleFragments_fit:
  "isObject exampleShape \<and>
   fragmentOf exampleShape (fst exampleFragments) \<and>
   fragmentOf exampleShape (fst (snd exampleFragments)) \<and>
   fragmentOf exampleShape (snd (snd exampleFragments))"
  by (simp add: exampleShape_def exampleFragments_def fragmentOf_def sameKind_def objectPrototype_def)

theorem merge_identity_and_fold_witness:
  "isObject exampleShape \<and>
   fragmentOf exampleShape (fst exampleFragments) \<and>
   fragmentOf exampleShape (fst (snd exampleFragments)) \<and>
   fragmentOf exampleShape (snd (snd exampleFragments)) \<and>
   mergeLeft (fst exampleFragments) (fst (snd exampleFragments)) (snd (snd exampleFragments)) =
     mergeRight (fst exampleFragments) (fst (snd exampleFragments)) (snd (snd exampleFragments)) \<and>
   mergeRight (fst exampleFragments) (fst (snd exampleFragments)) (snd (snd exampleFragments)) =
     Inr (JObj [(''yum'', JObj [(''httpd'', JArr [JStr ''2.4'', JStr ''2.2''] []), (''git'', JArr [] [])]),
                (''owner'', JStr ''c'')])"
proof -
  note fit = exampleFragments_fit
  note all = merge_identity_and_fold[of JUndef "[]" exampleShape "fst exampleFragments"
      "fst (snd exampleFragments)" "snd (snd exampleFragments)" "[]" "[]"]
  note assoc = all[THEN conjunct2, THEN conjunct2, THEN conjunct2, THEN conjunct1]
  from assoc fit
  have "mergeLeft (fst exampleFragments) (fst (snd exampleFragments)) (snd (snd exampleFragments)) =
     mergeRight (fst exampleFragments) (fst (snd exampleFragments)) (snd (snd exampleFragments)) \<and>
     (\<exists>r. mergeLeft (fst exampleFragments) (fst (snd exampleFragments)) (snd (snd exampleFragments)) = Inr r \<and>
          fragmentOf exampleShape r)"
    by (rule mp)
  then have e: "mergeLeft (fst exampleFragments) (fst (snd exampleFragments)) (snd (snd exampleFragments)) =
     mergeRight (fst exampleFragments) (fst (snd exampleFragments)) (snd (snd exampleFragments))"
    by (rule conjunct1)
  have v: "mergeRight (fst exampleFragments) (fst (snd exampleFragments)) (snd (snd exampleFragments)) =
     Inr (JObj [(''yum'', JObj [(''httpd'', JArr [JStr ''2.4'', JStr ''2.2''] []), (''git'', JArr [] [])]),
                (''owner'', JStr ''c'')])"
    by (simp add: mergeRight_def exampleFragments_def deepMerge_def coalesce_def arrayFromSet_def
          setAdd_def assign_def fromPrototype_def objectPrototype_def)
  show ?thesis
    by (intro conjI)
       (rule fit[THEN conjunct1], rule fit[THEN conjunct2, THEN conjunct1],
        rule fit[THEN conjunct2, THEN conjunct2, THEN conjunct1],
        rule fit[THEN conjunct2, THEN conjunct2, THEN conjunct2], rule e, rule v)
qed

theorem merge_identity_and_fold_counterexample:
  "mergeLeft (JObj [(''k'', JArr [JNum 1] [])]) (JObj [(''k'', JNull)]) (JObj [(''k'', JArr [JNum 2] [])]) =
     Inr (JObj [(''k'', JArr [JNum 2] [])]) \<and>
   mergeRight (JObj [(''k'', JArr [JNum 1] [])]) (JObj [(''k'', JNull)]) (JObj [(''k'', JArr [JNum 2] [])]) =
     Inr (JObj [(''k'', JArr [JNum 1, JNum 2] [])]) \<and>
   mergeLeft (JObj [(''k'', JStr ''x'')]) (JObj [(''k'', JArr [JNum 1] [])]) (JObj [(''k'', JStr ''y'')]) =
     Inl (MergeError (JArr [JNum 1] []) (JStr ''x'')) \<and>
   mergeRight (JObj [(''k'', JStr ''x'')]) (JObj [(''k'', JArr [JNum 1] [])]) (JObj [(''k'', JStr ''y'')]) =
     Inr (JObj [(''k'', JStr ''y'')])"
  by (simp add: mergeLeft_def mergeRight_def deepMerge_def coalesce_def arrayFromSet_def setAdd_def
        assign_def fromPrototype_def objectPrototype_def)

end
